theory Spec2Isabelle
  imports Main
begin

section \<open>JSON values as JavaScript sees them\<close>

text \<open>
  The bodies that travel through \<^verbatim>\<open>res.json\<close>, \<^verbatim>\<open>JSON.stringify\<close> and the JSONB
  columns are JSON values. Numbers are kept to the integers (no property below depends
  on fractions). Writing a value with \<^verbatim>\<open>JSON.stringify\<close> into a JSONB column and
  reading it back through the driver's \<^verbatim>\<open>JSON.parse\<close> is taken to return the same
  value.

  A body may also be missing: \<^verbatim>\<open>res.json()\<close> passes \<^verbatim>\<open>undefined\<close>, and so does a
  request whose body was not parsed. Such a body is an option, None for
  \<^verbatim>\<open>undefined\<close>. \<^verbatim>\<open>JSON.stringify(undefined)\<close> is \<^verbatim>\<open>undefined\<close>, which the driver
  sends as NULL; so the option is also what the statement writes into the column.
\<close>

datatype json =
    JNull
  | JBool bool
  | JNum int
  | JStr string
  | JArr "json list"
  | JObj "(string \<times> json) list"

text \<open>JavaScript's truthiness, as the test \<^verbatim>\<open>if (cached.response_body)\<close> applies it.\<close>

fun truthy :: "json \<Rightarrow> bool" where
  "truthy JNull = False"
| "truthy (JBool b) = b"
| "truthy (JNum n) = (n \<noteq> 0)"
| "truthy (JStr s) = (s \<noteq> [])"
| "truthy (JArr xs) = True"
| "truthy (JObj kvs) = True"

text \<open>A nullable JSONB column read by the driver: SQL NULL arrives as \<^verbatim>\<open>null\<close>.\<close>

definition column_truthy :: "json option \<Rightarrow> bool" where
  "column_truthy c = (case c of None \<Rightarrow> False | Some j \<Rightarrow> truthy j)"

section \<open>The table \<^verbatim>\<open>idempotency_keys\<close>\<close>

text \<open>The enum type of \<^verbatim>\<open>db_schema.sql\<close>, line 3.\<close>

datatype processing_status = Pending | Processing | Completed | Failed

text \<open>
  One row of the table (\<^verbatim>\<open>db_schema.sql\<close>, lines 6 to 18). Nullable columns are
  options. The three timestamp columns are \<^verbatim>\<open>TIMESTAMP\<close> without time zone: they hold
  wall-clock readings, counted in microseconds, the resolution of the column type.
\<close>

record row =
  row_id :: nat
  idempotency_key :: string
  request_method :: string
  request_path :: string
  request_body :: "json option"
  response_status :: "int option"
  response_body :: "json option"
  processing_status :: processing_status
  created_at :: int
  updated_at :: int
  expires_at :: int

text \<open>
  \<^verbatim>\<open>NOW()\<close> is an instant (\<^verbatim>\<open>timestamp with time zone\<close>), counted in microseconds.
  The time zone of the database session, which the code never sets, decides how an
  instant becomes the wall-clock reading that is stored in a \<^verbatim>\<open>TIMESTAMP\<close> column,
  and which instant a stored reading stands for when it is compared with
  \<^verbatim>\<open>NOW()\<close>.
\<close>

record time_zone =
  local_time :: "int \<Rightarrow> int"
  instant_of :: "int \<Rightarrow> int"

text \<open>\<^verbatim>\<open>INTERVAL '24 hours'\<close> in microseconds, added to the instant \<^verbatim>\<open>NOW()\<close>.\<close>

definition interval_24_hours :: int where
  "interval_24_hours = 24 * 60 * 60 * 1000000"

text \<open>
  The SELECT of lines 29 to 36: the rows of the key that have not expired at
  \<^verbatim>\<open>NOW()\<close>.
\<close>

definition checkQuery :: "time_zone \<Rightarrow> row list \<Rightarrow> int \<Rightarrow> string \<Rightarrow> row list" where
  "checkQuery z tbl now k =
     filter (\<lambda>r. idempotency_key r = k \<and> now < instant_of z (expires_at r)) tbl"

text \<open>
  The row the INSERT of lines 55 to 67 builds: the four request columns and
  \<^verbatim>\<open>'processing'\<close> are given, \<^verbatim>\<open>expires_at\<close> is \<^verbatim>\<open>NOW() + INTERVAL '24 hours'\<close>,
  the response columns are omitted and so NULL, the two other timestamps take their
  default \<^verbatim>\<open>NOW()\<close>, and \<^verbatim>\<open>id\<close> comes from the sequence. The request body is
  \<^verbatim>\<open>JSON.stringify(req.body)\<close>, NULL for a missing body.
\<close>

definition inserted_row ::
  "time_zone \<Rightarrow> nat \<Rightarrow> int \<Rightarrow> string \<Rightarrow> string \<Rightarrow> string \<Rightarrow> json option \<Rightarrow> row" where
  "inserted_row z i now k m p b =
     \<lparr> row_id = i, idempotency_key = k, request_method = m, request_path = p,
       request_body = b, response_status = None, response_body = None,
       processing_status = Processing, created_at = local_time z now,
       updated_at = local_time z now,
       expires_at = local_time z (now + interval_24_hours) \<rparr>"

text \<open>
  The INSERT with \<^verbatim>\<open>ON CONFLICT (idempotency_key) DO NOTHING RETURNING id\<close>. The
  statement raises when a value is longer than its VARCHAR column. The UNIQUE
  constraint looks at every row that is physically in the table, whatever its
  \<^verbatim>\<open>expires_at\<close>: on a conflict nothing is written and no row is returned. The result is
  the table and the returned ids.
\<close>

definition insertQuery ::
  "time_zone \<Rightarrow> row list \<Rightarrow> nat \<Rightarrow> int \<Rightarrow> string \<Rightarrow> string \<Rightarrow> string \<Rightarrow> json option
     \<Rightarrow> string + (row list \<times> nat list)" where
  "insertQuery z tbl i now k m p b =
     (if 255 < length k \<or> 10 < length m \<or> 500 < length p
      then Inl ''value too long for type character varying''
      else if k \<in> set (map idempotency_key tbl) then Inr (tbl, [])
      else Inr (tbl @ [inserted_row z i now k m p b], [i]))"

text \<open>
  The UPDATE of lines 87 to 100: every row of the key takes the status code, the
  body \<^verbatim>\<open>JSON.stringify(body)\<close> (NULL for a missing body) and the state completed.
\<close>

definition updateQuery ::
  "time_zone \<Rightarrow> row list \<Rightarrow> int \<Rightarrow> int \<Rightarrow> json option \<Rightarrow> string \<Rightarrow> row list" where
  "updateQuery z tbl now s b k =
     map (\<lambda>r. if idempotency_key r = k
               then r\<lparr> response_status := Some s, response_body := b,
                       processing_status := Completed, updated_at := local_time z now \<rparr>
               else r) tbl"

text \<open>The DELETE of line 281, with its \<^verbatim>\<open>rowCount\<close>.\<close>

definition deleteQuery :: "time_zone \<Rightarrow> row list \<Rightarrow> int \<Rightarrow> row list \<times> nat" where
  "deleteQuery z tbl now =
     (filter (\<lambda>r. \<not> instant_of z (expires_at r) < now) tbl,
      length (filter (\<lambda>r. instant_of z (expires_at r) < now) tbl))"

section \<open>The server process\<close>

datatype log_entry =
    MiddlewareError string
  | FailedToCache string
  | ErrStack string
  | CleanedUp nat
  | CleanupError string

text \<open>
  What the code reads and writes: the table, the sequence behind \<^verbatim>\<open>id\<close>, how many
  pool clients were handed out by \<^verbatim>\<open>pool.connect()\<close> and how many calls of
  \<^verbatim>\<open>client.release()\<close> were made, and the console.
\<close>

record world =
  idempotency_keys :: "row list"
  id_seq :: nat
  connects :: nat
  releases :: nat
  console :: "log_entry list"

text \<open>
  The pool of lines 8 to 14 is created without \<^verbatim>\<open>max\<close> and without a connection
  timeout, so it has the driver's defaults: at most ten clients, and a call of
  \<^verbatim>\<open>pool.connect()\<close> made while ten clients are checked out waits until one is
  released.
\<close>

definition pool_max :: nat where
  "pool_max = 10"

definition pool_exhausted :: "world \<Rightarrow> bool" where
  "pool_exhausted w = (releases w + pool_max \<le> connects w)"

text \<open>
  What one request meets outside the code: whether \<^verbatim>\<open>pool.connect()\<close> and each of the
  three statements raise (with the error's message), the value of \<^verbatim>\<open>NOW()\<close> in each
  statement, the time zone of the session, and whether the installed Express passes
  the rejection of an async function on to the error-handling middleware (version 5
  does, version 4 does not; the repository does not pin one).
\<close>

record env =
  connect_error :: "string option"
  check_error :: "string option"
  insert_error :: "string option"
  update_error :: "string option"
  check_now :: int
  insert_now :: int
  update_now :: int
  session_zone :: time_zone
  forwards_rejections :: bool

record request =
  header_idempotency_key :: "string option"
  req_method :: string
  req_path :: string
  req_body :: "json option"

text \<open>
  How \<^verbatim>\<open>idempotencyMiddleware\<close> leaves; \<open>Stalled\<close> when it does not leave, because
  \<^verbatim>\<open>pool.connect()\<close> waits.
\<close>

datatype verdict =
    Bypass
  | Respond int json
  | Proceed string
  | Forward string
  | Rejected string
  | Stalled

definition conflict_body :: json where
  "conflict_body = JObj [(''error'', JStr ''Request is already being processed'')]"

text \<open>
  Lines 18 to 23: the key the gate works with, or None when the request goes straight
  to \<^verbatim>\<open>next()\<close>. A header that is missing and one that is the empty string are both
  falsy.
\<close>

definition guarded_key :: "request \<Rightarrow> string option" where
  "guarded_key req =
     (case header_idempotency_key req of
        None \<Rightarrow> None
      | Some k \<Rightarrow> if k = [] \<or> req_method req = ''GET'' then None else Some k)"

text \<open>The catch block of lines 111 to 115.\<close>

definition caught :: "world \<Rightarrow> string \<Rightarrow> world \<times> verdict" where
  "caught w e =
     (w\<lparr> releases := releases w + 1, console := console w @ [MiddlewareError e] \<rparr>,
      Forward e)"

text \<open>
  Lines 29 to 52, inside the try block: the lookup and the two early returns. None
  means that control falls through to the insert. A cached body with a NULL status
  makes \<^verbatim>\<open>res.status\<close> and the send raise, which the catch block receives.
\<close>

definition check_phase :: "world \<Rightarrow> env \<Rightarrow> string \<Rightarrow> world \<times> verdict option" where
  "check_phase w e k =
     (case check_error e of
        Some msg \<Rightarrow> (case caught w msg of (w', v) \<Rightarrow> (w', Some v))
      | None \<Rightarrow>
          (case checkQuery (session_zone e) (idempotency_keys w) (check_now e) k of
             [] \<Rightarrow> (w, None)
           | cached # rest \<Rightarrow>
               if processing_status cached = Processing
               then (w, Some (Respond 409 conflict_body))
               else if column_truthy (response_body cached)
               then (case (response_status cached, response_body cached) of
                       (Some s, Some b) \<Rightarrow> (w, Some (Respond s b))
                     | _ \<Rightarrow> (case caught w ''Invalid status code'' of
                               (w', v) \<Rightarrow> (w', Some v)))
               else (w, None)))"

text \<open>
  Lines 54 to 110: the insert, the 409 when it returns no row, and otherwise the
  patching of \<^verbatim>\<open>res.json\<close> followed by \<^verbatim>\<open>next()\<close>.
\<close>

definition insert_phase :: "world \<Rightarrow> env \<Rightarrow> request \<Rightarrow> string \<Rightarrow> world \<times> verdict" where
  "insert_phase w e req k =
     (case insert_error e of
        Some msg \<Rightarrow> caught w msg
      | None \<Rightarrow>
          (case insertQuery (session_zone e) (idempotency_keys w) (id_seq w) (insert_now e) k
                  (req_method req) (req_path req) (req_body req) of
             Inl msg \<Rightarrow> caught w msg
           | Inr (tbl, ids) \<Rightarrow>
               (case ids of
                  [] \<Rightarrow> (w\<lparr> idempotency_keys := tbl, id_seq := id_seq w + 1 \<rparr>,
                         Respond 409 conflict_body)
                | i # rest \<Rightarrow> (w\<lparr> idempotency_keys := tbl, id_seq := id_seq w + 1 \<rparr>,
                              Proceed k))))"

text \<open>
  The whole middleware, lines 17 to 116. Line 25 waits when the pool has no client
  to hand out, and raises when the connection cannot be made.
\<close>

definition idempotencyMiddleware :: "world \<Rightarrow> env \<Rightarrow> request \<Rightarrow> world \<times> verdict" where
  "idempotencyMiddleware w e req =
     (case guarded_key req of
        None \<Rightarrow> (w, Bypass)
      | Some k \<Rightarrow>
          if pool_exhausted w then (w, Stalled)
          else
            (case connect_error e of
               Some msg \<Rightarrow> (w, Rejected msg)
             | None \<Rightarrow>
                 (case check_phase (w\<lparr> connects := connects w + 1 \<rparr>) e k of
                    (w', Some v) \<Rightarrow> (w', v)
                  | (w', None) \<Rightarrow> insert_phase w' e req k)))"

text \<open>
  The function that lines 85 to 108 put in place of \<^verbatim>\<open>res.json\<close>, as a change of the
  world; it then hands the body to the original \<^verbatim>\<open>res.json\<close> whatever happened.
\<close>

definition patched_json :: "world \<Rightarrow> env \<Rightarrow> string \<Rightarrow> int \<Rightarrow> json option \<Rightarrow> world" where
  "patched_json w e k s b =
     (let w' = (case update_error e of
                  Some msg \<Rightarrow> w\<lparr> console := console w @ [FailedToCache msg] \<rparr>
                | None \<Rightarrow> w\<lparr> idempotency_keys :=
                              updateQuery (session_zone e) (idempotency_keys w)
                                (update_now e) s b k \<rparr>)
      in w'\<lparr> releases := releases w' + 1 \<rparr>)"

text \<open>
  \<^verbatim>\<open>res.status(s).json(b)\<close> on the response object of a request: patched for the key
  when the middleware went through line 85, the original otherwise.
\<close>

definition res_json :: "string option \<Rightarrow> world \<Rightarrow> env \<Rightarrow> int \<Rightarrow> json option \<Rightarrow> world" where
  "res_json patch w e s b =
     (case patch of None \<Rightarrow> w | Some k \<Rightarrow> patched_json w e k s b)"

text \<open>
  What happened to one request: the world it leaves, the status and body sent to the
  client if any, and whether the route handler ran.
\<close>

record result =
  world_after :: world
  reply :: "(int \<times> json option) option"
  handler_invoked :: bool

definition error_body :: "string \<Rightarrow> json" where
  "error_body msg =
     JObj [(''error'', JStr ''Internal server error''), (''message'', JStr msg)]"

text \<open>The error-handling middleware, lines 265 to 271.\<close>

definition errorHandler :: "string option \<Rightarrow> world \<Rightarrow> env \<Rightarrow> string \<Rightarrow> bool \<Rightarrow> result" where
  "errorHandler patch w e msg called =
     \<lparr> world_after =
         res_json patch (w\<lparr> console := console w @ [ErrStack msg] \<rparr>) e 500
           (Some (error_body msg)),
       reply = Some (500, Some (error_body msg)),
       handler_invoked = called \<rparr>"

text \<open>
  What a route handler behind the middleware does with the response: it answers with
  \<^verbatim>\<open>res.status(s).json(b)\<close> (a status that Node accepts; the two sample handlers
  answer their own failures this way, with status 500), it throws synchronously or
  calls \<^verbatim>\<open>next(err)\<close>, its promise rejects, or it never answers (the sample
  handlers take a second client of the same pool, and one that waits for it never
  answers). A body that is missing is \<^verbatim>\<open>res.json()\<close>. A thrown error reaches the
  error-handling middleware; a rejection reaches it when Express forwards
  rejections.
\<close>

datatype downstream =
    Json int "json option"
  | Throws string
  | Rejects string
  | Hangs

definition run_downstream :: "string option \<Rightarrow> world \<Rightarrow> env \<Rightarrow> downstream \<Rightarrow> result" where
  "run_downstream patch w e d =
     (case d of
        Json s b \<Rightarrow>
          \<lparr> world_after = res_json patch w e s b, reply = Some (s, b), handler_invoked = True \<rparr>
      | Throws msg \<Rightarrow> errorHandler patch w e msg True
      | Rejects msg \<Rightarrow>
          if forwards_rejections e then errorHandler patch w e msg True
          else \<lparr> world_after = w, reply = None, handler_invoked = True \<rparr>
      | Hangs \<Rightarrow> \<lparr> world_after = w, reply = None, handler_invoked = True \<rparr>)"

text \<open>One request through the application: the middleware, then what it passes control to.\<close>

definition handle_request :: "world \<Rightarrow> env \<Rightarrow> request \<Rightarrow> downstream \<Rightarrow> result" where
  "handle_request w e req d =
     (case idempotencyMiddleware w e req of
        (w', Bypass) \<Rightarrow> run_downstream None w' e d
      | (w', Respond s b) \<Rightarrow>
          \<lparr> world_after = w', reply = Some (s, Some b), handler_invoked = False \<rparr>
      | (w', Proceed k) \<Rightarrow> run_downstream (Some k) w' e d
      | (w', Forward msg) \<Rightarrow> errorHandler None w' e msg False
      | (w', Rejected msg) \<Rightarrow>
          if forwards_rejections e then errorHandler None w' e msg False
          else \<lparr> world_after = w', reply = None, handler_invoked = False \<rparr>
      | (w', Stalled) \<Rightarrow> \<lparr> world_after = w', reply = None, handler_invoked = False \<rparr>)"

text \<open>
  \<^verbatim>\<open>cleanupExpiredKeys\<close>, lines 279 to 286, run at the given \<^verbatim>\<open>NOW()\<close> in a session
  of the given time zone. \<^verbatim>\<open>pool.query\<close> takes a client of the same pool for the
  statement and gives it back; while the pool has none to hand out it waits, and
  nothing happens.
\<close>

definition cleanupExpiredKeys :: "world \<Rightarrow> time_zone \<Rightarrow> int \<Rightarrow> string option \<Rightarrow> world" where
  "cleanupExpiredKeys w z now failure =
     (if pool_exhausted w then w
      else
        (case failure of
           Some msg \<Rightarrow> w\<lparr> console := console w @ [CleanupError msg] \<rparr>
         | None \<Rightarrow>
             (case deleteQuery z (idempotency_keys w) now of
                (tbl, n) \<Rightarrow>
                  w\<lparr> idempotency_keys := tbl, console := console w @ [CleanedUp n] \<rparr>)))"

section \<open>Several requests at once\<close>

text \<open>
  Each statement sent to the database is atomic, and what a request does between two
  statements touches only its own variables; so a request advances in two steps, the
  lookup and the insert, and the steps of different requests interleave in any
  order. A request that has sent its lookup and fell through holds its key and its
  client. No completion write and no sweep is among the steps: the requests race
  before any of them completes.
\<close>

datatype stage = Arrived | Checked string | Settled verdict

record caller =
  caller_env :: env
  caller_request :: request
  stage :: stage

text \<open>
  The next step of one request: lines 18 to 52 first, lines 54 to 110 second. A
  request for which the pool has no client stays where it is.
\<close>

definition advance :: "world \<Rightarrow> caller \<Rightarrow> world \<times> caller" where
  "advance w c =
     (case stage c of
        Arrived \<Rightarrow>
          (case guarded_key (caller_request c) of
             None \<Rightarrow> (w, c\<lparr> stage := Settled Bypass \<rparr>)
           | Some k \<Rightarrow>
               if pool_exhausted w then (w, c)
               else
                 (case connect_error (caller_env c) of
                    Some msg \<Rightarrow> (w, c\<lparr> stage := Settled (Rejected msg) \<rparr>)
                  | None \<Rightarrow>
                      (case check_phase (w\<lparr> connects := connects w + 1 \<rparr>) (caller_env c) k of
                         (w', Some v) \<Rightarrow> (w', c\<lparr> stage := Settled v \<rparr>)
                       | (w', None) \<Rightarrow> (w', c\<lparr> stage := Checked k \<rparr>))))
      | Checked k \<Rightarrow>
          (case insert_phase w (caller_env c) (caller_request c) k of
             (w', v) \<Rightarrow> (w', c\<lparr> stage := Settled v \<rparr>))
      | Settled v \<Rightarrow> (w, c))"

text \<open>
  A schedule names, step by step, the request that advances. A number that names no
  request is skipped.
\<close>

fun interleave :: "nat list \<Rightarrow> world \<Rightarrow> caller list \<Rightarrow> world \<times> caller list" where
  "interleave [] w cs = (w, cs)"
| "interleave (i # sched) w cs =
     (if i < length cs
      then (case advance w (cs ! i) of (w', c') \<Rightarrow> interleave sched w' (cs[i := c']))
      else interleave sched w cs)"

text \<open>How many of the requests were settled with the given verdict.\<close>

definition settled_with :: "verdict \<Rightarrow> caller list \<Rightarrow> nat" where
  "settled_with v cs = length (filter (\<lambda>c. stage c = Settled v) cs)"

section \<open>What happens to the server over time\<close>

text \<open>
  A request handled from its arrival to its answer, a run of the cleanup job, or the
  end of the server process followed by a new start (Node may end the process on a
  rejection that nothing handles): the new process has a new pool, and the table is
  what the database holds.
\<close>

datatype event =
    Request env request downstream
  | Sweep time_zone int "string option"
  | Restart

fun occur :: "world \<Rightarrow> event \<Rightarrow> world" where
  "occur w (Request e req d) = world_after (handle_request w e req d)"
| "occur w (Sweep z now failure) = cleanupExpiredKeys w z now failure"
| "occur w Restart = w\<lparr> connects := 0, releases := 0 \<rparr>"

section \<open>Predicates of the statements\<close>






text \<open>A handler whose failure never leads to a call of \<^verbatim>\<open>res.json\<close>.\<close>

definition never_answers :: "env \<Rightarrow> downstream \<Rightarrow> bool" where
  "never_answers e d =
     (case d of
        Json s b \<Rightarrow> False
      | Throws msg \<Rightarrow> False
      | Rejects msg \<Rightarrow> \<not> forwards_rejections e
      | Hangs \<Rightarrow> True)"

text \<open>The record is in the table and is the only row of its key.\<close>

definition holds_key :: "row \<Rightarrow> row list \<Rightarrow> bool" where
  "holds_key r tbl =
     (r \<in> set tbl \<and> (\<forall>r'\<in>set tbl. idempotency_key r' = idempotency_key r \<longrightarrow> r' = r))"

text \<open>An event that is not a sweep which finds the record expired.\<close>

fun spares :: "row \<Rightarrow> event \<Rightarrow> bool" where
  "spares r (Sweep z now failure) = (\<not> instant_of z (expires_at r) < now)"
| "spares r ev = True"

text \<open>
  A request that competes for the key: it is guarded with that key, none of its
  statements raises, and its values fit their columns.
\<close>

definition contender :: "string \<Rightarrow> caller \<Rightarrow> bool" where
  "contender k c =
     (guarded_key (caller_request c) = Some k \<and>
      connect_error (caller_env c) = None \<and> check_error (caller_env c) = None \<and>
      insert_error (caller_env c) = None \<and>
      length k \<le> 255 \<and> length (req_method (caller_request c)) \<le> 10 \<and>
      length (req_path (caller_request c)) \<le> 500)"

text \<open>
  The state of a race for one key in which nothing went wrong: every request is a
  contender at one of the four places it can be, every row of the key is in state
  processing, and a row of the key is in the table exactly when one request has
  been let through.
\<close>

definition race :: "string \<Rightarrow> world \<Rightarrow> caller list \<Rightarrow> bool" where
  "race k w cs =
     ((\<forall>c\<in>set cs. contender k c \<and>
          (stage c = Arrived \<or> stage c = Checked k \<or> stage c = Settled (Proceed k) \<or>
           stage c = Settled (Respond 409 conflict_body))) \<and>
      (\<forall>r\<in>set (idempotency_keys w). idempotency_key r = k \<longrightarrow> processing_status r = Processing) \<and>
      (if k \<in> set (map idempotency_key (idempotency_keys w))
       then settled_with (Proceed k) cs = 1
       else (\<forall>c\<in>set cs. stage c = Arrived \<or> stage c = Checked k)))"

text \<open>
  A time zone with one offset from universal time throughout: the stored reading is
  the instant plus the offset, and is read back as that instant.
\<close>

definition fixed_offset :: "int \<Rightarrow> time_zone \<Rightarrow> bool" where
  "fixed_offset c z = ((\<forall>x. local_time z x = x + c) \<and> (\<forall>y. instant_of z y = y - c))"

section \<open>Concrete worlds, requests and environments\<close>

text \<open>
  Small inputs on which the properties below are evaluated.
\<close>

text \<open>Universal time: readings and instants coincide.\<close>

definition utc :: time_zone where
  "utc = \<lparr> local_time = (\<lambda>x. x), instant_of = (\<lambda>y. y) \<rparr>"

text \<open>
  A zone that is two hours ahead of universal time before the instant 3600000000
  and one hour ahead from then on, as at the end of summer time. A reading in the
  hour that the clocks repeat is read back as wintertime.
\<close>

definition summer_ends :: time_zone where
  "summer_ends =
     \<lparr> local_time = (\<lambda>x. if x < 3600000000 then x + 7200000000 else x + 3600000000),
       instant_of = (\<lambda>y. if y < 7200000000 then y - 7200000000 else y - 3600000000) \<rparr>"

text \<open>An environment in which nothing raises, at one instant of universal time.\<close>

definition quiet :: "int \<Rightarrow> env" where
  "quiet t = \<lparr> connect_error = None, check_error = None, insert_error = None,
      update_error = None, check_now = t, insert_now = t, update_now = t,
      session_zone = utc, forwards_rejections = False \<rparr>"

definition post :: "string \<Rightarrow> string \<Rightarrow> json \<Rightarrow> request" where
  "post k p b = \<lparr> header_idempotency_key = Some k, req_method = ''POST'', req_path = p,
      req_body = Some b \<rparr>"

text \<open>The same request as \<open>post\<close> with another method.\<close>

definition with_method :: "string \<Rightarrow> request \<Rightarrow> request" where
  "with_method m req = req\<lparr> req_method := m \<rparr>"

text \<open>A new request for the key, in an environment where nothing raises.\<close>

definition arrival :: "int \<Rightarrow> string \<Rightarrow> caller" where
  "arrival t k =
     \<lparr> caller_env = quiet t, caller_request = post k ''/api/payment'' JNull, stage = Arrived \<rparr>"

definition empty_world :: world where
  "empty_world = \<lparr> idempotency_keys = [], id_seq = 1, connects = 0, releases = 0, console = [] \<rparr>"

text \<open>An environment in which only the completion UPDATE raises.\<close>

definition update_down :: "int \<Rightarrow> env" where
  "update_down t = (quiet t)\<lparr> update_error := Some ''connection terminated'' \<rparr>"

text \<open>The quiet environment in the zone where summer time ends.\<close>

definition autumn :: "int \<Rightarrow> env" where
  "autumn t = (quiet t)\<lparr> session_zone := summer_ends \<rparr>"

text \<open>A world in which the request with key K4 is still being processed.\<close>

definition processing_world :: world where
  "processing_world =
     \<lparr> idempotency_keys = [inserted_row utc 1 0 ''K4'' ''POST'' ''/api/payment'' (Some JNull)],
       id_seq = 2, connects = 1, releases = 0, console = [] \<rparr>"

text \<open>A completed record whose cached body is the JSON value \<^verbatim>\<open>null\<close>.\<close>

definition null_body_row :: row where
  "null_body_row =
     \<lparr> row_id = 1, idempotency_key = ''K10'', request_method = ''POST'',
       request_path = ''/api/payment'', request_body = Some JNull,
       response_status = Some 200, response_body = Some JNull,
       processing_status = Completed, created_at = 0, updated_at = 3,
       expires_at = 86400000000 \<rparr>"

definition null_body_world :: world where
  "null_body_world =
     \<lparr> idempotency_keys = [null_body_row], id_seq = 2, connects = 1, releases = 1, console = [] \<rparr>"

text \<open>
  The world after one request with key K3 was claimed at time 0 and completed: its
  record expires at time 86400000000 and is still in the table.
\<close>

definition expired_row :: row where
  "expired_row =
     (inserted_row utc 1 0 ''K3'' ''POST'' ''/api/payment'' (Some JNull))
       \<lparr> response_status := Some 201,
         response_body := Some (JObj [(''success'', JBool True)]),
         processing_status := Completed, updated_at := 0 \<rparr>"

definition expired_world :: world where
  "expired_world =
     \<lparr> idempotency_keys = [expired_row], id_seq = 2, connects = 1, releases = 1, console = [] \<rparr>"

text \<open>
  What follows the failed request with key K4: a first retry, a restart of the
  server, a sweep at time 5 and a request with another key that completes.
\<close>

definition later_events :: "event list" where
  "later_events =
     [Request (quiet 1) (post ''K4'' ''/api/payment'' JNull) (Json 201 (Some JNull)),
      Restart,
      Sweep utc 5 None,
      Request (quiet 6) (post ''K7'' ''/api/orders'' JNull) (Json 201 (Some JNull))]"

section \<open>Properties\<close>

subsection \<open>The statements and the two halves of the middleware\<close>

lemma insertQuery_fresh:
  "insertQuery z tbl i now k m p b = Inr (tbl', j # js) \<Longrightarrow>
     tbl' = tbl @ [inserted_row z i now k m p b] \<and> k \<notin> set (map idempotency_key tbl) \<and>
     j = i \<and> js = []"
  by (auto simp: insertQuery_def split: if_splits)

lemma insert_phase_Proceed:
  "insert_phase w e req k = (w', Proceed k') \<Longrightarrow>
     k' = k \<and> k \<notin> set (map idempotency_key (idempotency_keys w)) \<and>
     w' = w\<lparr> idempotency_keys := idempotency_keys w @
             [inserted_row (session_zone e) (id_seq w) (insert_now e) k (req_method req)
                (req_path req) (req_body req)],
           id_seq := id_seq w + 1 \<rparr>"
  by (auto simp: insert_phase_def caught_def insertQuery_def
      split: option.splits sum.splits list.splits if_splits)

lemma insert_phase_table:
  "insert_phase w e req k = (w', v) \<Longrightarrow>
     (\<forall>k'. v \<noteq> Proceed k') \<Longrightarrow> idempotency_keys w' = idempotency_keys w"
  by (auto simp: insert_phase_def caught_def insertQuery_def
      split: option.splits sum.splits list.splits if_splits)

lemma check_phase_None:
  "check_phase w e k = (w', None) \<Longrightarrow> w' = w"
  by (auto simp: check_phase_def caught_def split: option.splits list.splits if_splits prod.splits)

lemma check_phase_verdict:
  "check_phase w e k = (w', Some v) \<Longrightarrow>
     (\<exists>s b. v = Respond s b \<and> w' = w) \<or>
     (\<exists>msg. v = Forward msg \<and>
        w' = w\<lparr> releases := releases w + 1, console := console w @ [MiddlewareError msg] \<rparr>)"
  by (auto simp: check_phase_def caught_def split: option.splits list.splits if_splits prod.splits)

lemma middleware_Proceed:
  "idempotencyMiddleware w e req = (w', Proceed k) \<Longrightarrow>
     guarded_key req = Some k \<and> k \<notin> set (map idempotency_key (idempotency_keys w)) \<and>
     \<not> pool_exhausted w \<and>
     w' = w\<lparr> idempotency_keys := idempotency_keys w @
             [inserted_row (session_zone e) (id_seq w) (insert_now e) k (req_method req)
                (req_path req) (req_body req)],
           id_seq := id_seq w + 1, connects := connects w + 1 \<rparr>"
  apply (simp add: idempotencyMiddleware_def split: option.splits prod.splits if_splits)
  apply (auto dest!: check_phase_None insert_phase_Proceed check_phase_verdict)
  done

lemma middleware_table:
  assumes "idempotencyMiddleware w e req = (w', v)" and "\<forall>k. v \<noteq> Proceed k"
  shows "idempotency_keys w' = idempotency_keys w"
proof (cases "guarded_key req")
  case None
  with assms show ?thesis by (simp add: idempotencyMiddleware_def)
next
  case (Some k)
  show ?thesis
  proof (cases "pool_exhausted w \<or> connect_error e \<noteq> None")
    case True
    with assms Some show ?thesis
      by (auto simp: idempotencyMiddleware_def split: option.splits if_splits)
  next
    case False
    let ?w = "w\<lparr> connects := connects w + 1 \<rparr>"
    obtain w1 c where chk: "check_phase ?w e k = (w1, c)" by (cases "check_phase ?w e k")
    show ?thesis
    proof (cases c)
      case None
      with chk have "w1 = ?w" by (simp add: check_phase_None)
      moreover from assms Some False chk None have "insert_phase w1 e req k = (w', v)"
        by (auto simp: idempotencyMiddleware_def)
      ultimately show ?thesis
        using insert_phase_table [of ?w e req k w' v] assms(2) by simp
    next
      case (Some v')
      with assms \<open>guarded_key req = Some k\<close> False chk have "w' = w1"
        by (auto simp: idempotencyMiddleware_def)
      with chk Some check_phase_verdict [of ?w e k w1 v'] show ?thesis by auto
    qed
  qed
qed

lemma filter_unique_key:
  "distinct (map f xs) \<Longrightarrow> r \<in> set xs \<Longrightarrow>
     filter (\<lambda>x. f x = f r \<and> P x) xs = (if P r then [r] else [])"
proof (induction xs)
  case Nil
  then show ?case by simp
next
  case (Cons x xs)
  show ?case
  proof (cases "x = r")
    case True
    with Cons.prems have "\<forall>y\<in>set xs. f y \<noteq> f r"
      by (metis distinct.simps(2) image_eqI list.simps(9) set_map)
    then have "filter (\<lambda>x. f x = f r \<and> P x) xs = []" by (simp add: filter_empty_conv)
    with True show ?thesis by simp
  next
    case False
    with Cons.prems have "r \<in> set xs" "f x \<noteq> f r" "distinct (map f xs)"
      by (auto simp: image_iff)
    with Cons.IH show ?thesis by simp
  qed
qed

lemma checkQuery_unique:
  assumes "distinct (map idempotency_key tbl)" "r \<in> set tbl"
  shows "checkQuery z tbl now (idempotency_key r) =
           (if now < instant_of z (expires_at r) then [r] else [])"
  unfolding checkQuery_def
  using filter_unique_key [OF assms, of "\<lambda>x. now < instant_of z (expires_at x)"] .

lemma checkQuery_fresh_row:
  assumes "k \<notin> set (map idempotency_key tbl)" and "idempotency_key r = k"
  shows "checkQuery z (tbl @ [r]) t k = (if t < instant_of z (expires_at r) then [r] else [])"
proof -
  from assms(1)
  have "filter (\<lambda>x. idempotency_key x = k \<and> t < instant_of z (expires_at x)) tbl = []"
    by (auto simp: filter_empty_conv)
  with assms(2) show ?thesis by (simp add: checkQuery_def)
qed

lemma updateQuery_fresh_row:
  assumes "k \<notin> set (map idempotency_key tbl)" and "idempotency_key r = k"
  shows "updateQuery z (tbl @ [r]) t s b k =
           tbl @ [r\<lparr> response_status := Some s, response_body := b,
                      processing_status := Completed, updated_at := local_time z t \<rparr>]"
proof -
  from assms(1) have "map (\<lambda>x. if idempotency_key x = k
               then x\<lparr> response_status := Some s, response_body := b,
                       processing_status := Completed, updated_at := local_time z t \<rparr>
               else x) tbl = tbl"
    by (induction tbl) auto
  with assms(2) show ?thesis by (simp add: updateQuery_def)
qed

lemma updateQuery_member:
  assumes "r' \<in> set (updateQuery z tbl now s b k)"
  obtains r where "r \<in> set tbl"
    and "r' = (if idempotency_key r = k
               then r\<lparr> response_status := Some s, response_body := b,
                       processing_status := Completed, updated_at := local_time z now \<rparr>
               else r)"
proof -
  from assms have "r' \<in> (\<lambda>r. if idempotency_key r = k
               then r\<lparr> response_status := Some s, response_body := b,
                       processing_status := Completed, updated_at := local_time z now \<rparr>
               else r) ` set tbl"
    by (simp only: updateQuery_def set_map)
  then show thesis using that by (elim imageE) blast
qed


lemma updateQuery_others:
  assumes "r' \<in> set (updateQuery z tbl now s b k)" and "idempotency_key r' \<noteq> k"
  shows "r' \<in> set tbl"
proof -
  from assms(1) obtain r where r: "r \<in> set tbl"
    "r' = (if idempotency_key r = k
               then r\<lparr> response_status := Some s, response_body := b,
                       processing_status := Completed, updated_at := local_time z now \<rparr>
               else r)"
    by (rule updateQuery_member)
  show ?thesis
  proof (cases "idempotency_key r = k")
    case True
    with r(2) assms(2) show ?thesis by simp
  next
    case False
    with r show ?thesis by simp
  qed
qed

lemma updateQuery_keeps:
  assumes "r \<in> set tbl" and "idempotency_key r \<noteq> k"
  shows "r \<in> set (updateQuery z tbl now s b k)"
proof -
  let ?f = "\<lambda>r. if idempotency_key r = k
               then r\<lparr> response_status := Some s, response_body := b,
                       processing_status := Completed, updated_at := local_time z now \<rparr>
               else r"
  from assms(2) have "?f r = r" by simp
  moreover from assms(1) have "?f r \<in> ?f ` set tbl" by (rule imageI)
  ultimately have "r \<in> ?f ` set tbl" by (simp only:)
  then show ?thesis by (simp only: updateQuery_def set_map)
qed

text \<open>The definitions that an evaluation of one request unfolds.\<close>

lemmas run_defs =
  handle_request_def idempotencyMiddleware_def guarded_key_def check_phase_def insert_phase_def
  checkQuery_def insertQuery_def updateQuery_def deleteQuery_def cleanupExpiredKeys_def
  run_downstream_def errorHandler_def res_json_def patched_json_def caught_def column_truthy_def
  inserted_row_def interval_24_hours_def pool_exhausted_def pool_max_def
  empty_world_def quiet_def post_def utc_def

subsection \<open>Concurrent claims for one key\<close>

text \<open>
  A request that finds a client in the pool and takes its two steps one after the
  other does what \<^verbatim>\<open>idempotencyMiddleware\<close> does.
\<close>

lemma two_steps_are_the_middleware:
  "\<not> pool_exhausted w \<Longrightarrow>
   (case advance w \<lparr> caller_env = e, caller_request = req, stage = Arrived \<rparr> of
      (w1, c1) \<Rightarrow> (case advance w1 c1 of (w2, c2) \<Rightarrow> (w2, stage c2)))
   = (case idempotencyMiddleware w e req of (w', v) \<Rightarrow> (w', Settled v))"
  by (simp add: advance_def idempotencyMiddleware_def split: option.splits prod.splits)

text \<open>
  Claim C1. The claim asks that, for a key with no unexpired record, exactly one of the
  concurrent callers is let through. Evaluated on the code: a request with key K3 was
  claimed at time 0 and completed; its record expired at time 86400000000 and has
  not been swept, so the key has no unexpired record one microsecond later. Two
  requests with key K3 run at that time, with their statements interleaved either
  way: both lookups return no row, both inserts meet the expired row through the
  UNIQUE constraint, both requests are answered 409 and none is let through.
\<close>

theorem expired_row_blocks_every_caller:
  "world_after (handle_request empty_world (quiet 0) (post ''K3'' ''/api/payment'' JNull)
      (Json 201 (Some (JObj [(''success'', JBool True)])))) = expired_world \<and>
   checkQuery utc (idempotency_keys expired_world) 86400000001 ''K3'' = [] \<and>
   map stage (snd (interleave [0, 1, 0, 1] expired_world
      [arrival 86400000001 ''K3'', arrival 86400000001 ''K3'']))
     = [Settled (Respond 409 conflict_body), Settled (Respond 409 conflict_body)] \<and>
   map stage (snd (interleave [0, 0, 1, 1] expired_world
      [arrival 86400000001 ''K3'', arrival 86400000001 ''K3'']))
     = [Settled (Respond 409 conflict_body), Settled (Respond 409 conflict_body)] \<and>
   settled_with (Proceed ''K3'')
     (snd (interleave [0, 1, 0, 1] expired_world
        [arrival 86400000001 ''K3'', arrival 86400000001 ''K3''])) = 0"
  by (simp add: settled_with_def advance_def arrival_def run_defs expired_world_def expired_row_def)

text \<open>
  With no row of the key in the table the race has one winner: five requests with key
  K2, their statements interleaved, end with one request let through and four
  answered 409.
\<close>

lemma scenario_B:
  "map stage (snd (interleave [0, 1, 2, 3, 4, 3, 0, 4, 1, 2] empty_world
      [arrival 0 ''K2'', arrival 0 ''K2'', arrival 0 ''K2'', arrival 0 ''K2'', arrival 0 ''K2'']))
     = [Settled (Respond 409 conflict_body), Settled (Respond 409 conflict_body),
        Settled (Respond 409 conflict_body), Settled (Proceed ''K2''),
        Settled (Respond 409 conflict_body)]"
  by (simp add: advance_def arrival_def run_defs)

text \<open>
  The same for any number of requests, any schedule and any times, when the table
  holds no row of the key at the start, no statement raises and no request completes
  during the race: the steps keep \<open>race\<close>, so at most one request is ever let
  through, and once all requests are settled exactly one was let through and all the
  others were answered 409.
\<close>

lemma advance_Arrived:
  assumes c: "contender k c" "stage c = Arrived"
    and proc: "\<forall>r\<in>set (idempotency_keys w). idempotency_key r = k \<longrightarrow> processing_status r = Processing"
  shows "advance w c = (w, c) \<or>
         advance w c = (w\<lparr> connects := connects w + 1 \<rparr>, c\<lparr> stage := Checked k \<rparr>) \<or>
         (advance w c = (w\<lparr> connects := connects w + 1 \<rparr>,
                         c\<lparr> stage := Settled (Respond 409 conflict_body) \<rparr>) \<and>
          k \<in> set (map idempotency_key (idempotency_keys w)))"
proof (cases "pool_exhausted w")
  case True
  with c show ?thesis by (simp add: advance_def contender_def)
next
  case False
  show ?thesis
  proof (cases "checkQuery (session_zone (caller_env c)) (idempotency_keys w)
                  (check_now (caller_env c)) k")
    case Nil
    with c False
    have "advance w c = (w\<lparr> connects := connects w + 1 \<rparr>, c\<lparr> stage := Checked k \<rparr>)"
      by (simp add: advance_def contender_def check_phase_def)
    then show ?thesis by simp
  next
    case (Cons cached rest)
    then have "cached \<in> set (checkQuery (session_zone (caller_env c)) (idempotency_keys w)
                  (check_now (caller_env c)) k)"
      by simp
    then have mem: "cached \<in> set (idempotency_keys w)" and key: "idempotency_key cached = k"
      by (simp_all add: checkQuery_def)
    with proc have "processing_status cached = Processing" by blast
    with c Cons False have "advance w c =
        (w\<lparr> connects := connects w + 1 \<rparr>, c\<lparr> stage := Settled (Respond 409 conflict_body) \<rparr>)"
      by (simp add: advance_def contender_def check_phase_def)
    moreover from mem key have "k \<in> set (map idempotency_key (idempotency_keys w))" by force
    ultimately show ?thesis by simp
  qed
qed

lemma advance_Checked:
  assumes c: "contender k c" "stage c = Checked k"
  shows "advance w c =
     (if k \<in> set (map idempotency_key (idempotency_keys w))
      then (w\<lparr> idempotency_keys := idempotency_keys w, id_seq := id_seq w + 1 \<rparr>,
            c\<lparr> stage := Settled (Respond 409 conflict_body) \<rparr>)
      else (w\<lparr> idempotency_keys := idempotency_keys w @
                [inserted_row (session_zone (caller_env c)) (id_seq w)
                   (insert_now (caller_env c)) k
                   (req_method (caller_request c)) (req_path (caller_request c))
                   (req_body (caller_request c))],
              id_seq := id_seq w + 1 \<rparr>,
            c\<lparr> stage := Settled (Proceed k) \<rparr>))"
  using c by (simp add: advance_def contender_def insert_phase_def insertQuery_def)

lemma advance_Settled:
  "stage c = Settled v \<Longrightarrow> advance w c = (w, c)"
  by (simp add: advance_def)

lemma filter_length_update:
  "i < length xs \<Longrightarrow>
     length (filter P (xs[i := y])) + (if P (xs ! i) then 1 else 0)
       = length (filter P xs) + (if P y then 1 else 0)"
proof (induction xs arbitrary: i)
  case Nil
  then show ?case by simp
next
  case (Cons x xs)
  show ?case
  proof (cases i)
    case 0
    then show ?thesis by simp
  next
    case (Suc j)
    with Cons.prems have "j < length xs" by simp
    from Cons.IH [OF this] Suc show ?thesis by simp
  qed
qed

lemma filter_length_split:
  "\<forall>x\<in>set xs. P x \<noteq> Q x \<Longrightarrow> length (filter P xs) + length (filter Q xs) = length xs"
  by (induction xs) auto

lemma contender_stage:
  "contender k (c\<lparr> stage := s \<rparr>) = contender k c"
  by (simp add: contender_def)

lemma settled_with_update:
  "i < length cs \<Longrightarrow>
     settled_with v (cs[i := c']) + (if stage (cs ! i) = Settled v then 1 else 0)
       = settled_with v cs + (if stage c' = Settled v then 1 else 0)"
  unfolding settled_with_def by (rule filter_length_update)

lemma settled_with_none:
  "\<forall>c\<in>set cs. stage c = Arrived \<or> stage c = Checked k \<Longrightarrow> settled_with v cs = 0"
  unfolding settled_with_def by (induction cs) auto

lemma race_advance:
  assumes inv: "race k w cs" and i: "i < length cs" and adv: "advance w (cs ! i) = (w', c')"
  shows "race k w' (cs[i := c'])"
proof -
  let ?c = "cs ! i"
  let ?keys = "set (map idempotency_key (idempotency_keys w))"
  from i have mem: "?c \<in> set cs" by simp
  from inv have all: "\<forall>c\<in>set cs. contender k c \<and>
          (stage c = Arrived \<or> stage c = Checked k \<or> stage c = Settled (Proceed k) \<or>
           stage c = Settled (Respond 409 conflict_body))"
    and proc: "\<forall>r\<in>set (idempotency_keys w). idempotency_key r = k \<longrightarrow> processing_status r = Processing"
    and won: "k \<in> ?keys \<Longrightarrow> settled_with (Proceed k) cs = 1"
    and open_race: "k \<notin> ?keys \<Longrightarrow> \<forall>c\<in>set cs. stage c = Arrived \<or> stage c = Checked k"
    by (simp_all add: race_def split: if_splits)
  from all mem have con: "contender k ?c"
    and four: "stage ?c = Arrived \<or> stage ?c = Checked k \<or> stage ?c = Settled (Proceed k) \<or>
           stage ?c = Settled (Respond 409 conflict_body)"
    by blast+
  have sub: "set (cs[i := c']) \<subseteq> insert c' (set cs)"
    by (rule set_update_subset_insert)
  note cnt = settled_with_update [OF i, of "Proceed k" c']
  from four consider
      (waits) "advance w ?c = (w, ?c)"
    | (check) "stage ?c = Arrived" "advance w ?c = (w\<lparr> connects := connects w + 1 \<rparr>, ?c\<lparr> stage := Checked k \<rparr>)"
    | (seen) "stage ?c = Arrived" "k \<in> ?keys"
        "advance w ?c = (w\<lparr> connects := connects w + 1 \<rparr>, ?c\<lparr> stage := Settled (Respond 409 conflict_body) \<rparr>)"
    | (lost) "stage ?c = Checked k" "k \<in> ?keys"
    | (first) "stage ?c = Checked k" "k \<notin> ?keys"
    | (settled) v where "stage ?c = Settled v"
    using advance_Arrived [OF con _ proc] by blast
  then show ?thesis
  proof cases
    case waits
    with adv have "w' = w" "c' = ?c" by simp_all
    with inv show ?thesis by simp
  next
    case check
    with adv have w': "w' = w\<lparr> connects := connects w + 1 \<rparr>" and c': "c' = ?c\<lparr> stage := Checked k \<rparr>"
      by simp_all
    have new: "contender k c'" "stage c' = Checked k"
      using con by (simp_all add: c' contender_stage)
    have a: "\<forall>c\<in>set (cs[i := c']). contender k c \<and>
          (stage c = Arrived \<or> stage c = Checked k \<or> stage c = Settled (Proceed k) \<or>
           stage c = Settled (Respond 409 conflict_body))"
      using sub all new by blast
    have b: "k \<in> ?keys \<Longrightarrow> settled_with (Proceed k) (cs[i := c']) = 1"
      using cnt won check(1) new(2) by simp
    have c: "k \<notin> ?keys \<Longrightarrow> \<forall>c\<in>set (cs[i := c']). stage c = Arrived \<or> stage c = Checked k"
      using sub open_race new(2) by blast
    show ?thesis
      unfolding race_def using a b c proc by (simp add: w')
  next
    case seen
    with adv have w': "w' = w\<lparr> connects := connects w + 1 \<rparr>"
      and c': "c' = ?c\<lparr> stage := Settled (Respond 409 conflict_body) \<rparr>"
      by simp_all
    have new: "contender k c'" "stage c' = Settled (Respond 409 conflict_body)"
      using con by (simp_all add: c' contender_stage)
    have a: "\<forall>c\<in>set (cs[i := c']). contender k c \<and>
          (stage c = Arrived \<or> stage c = Checked k \<or> stage c = Settled (Proceed k) \<or>
           stage c = Settled (Respond 409 conflict_body))"
      using sub all new by blast
    have b: "settled_with (Proceed k) (cs[i := c']) = 1"
      using cnt won [OF seen(2)] seen(1) new(2) by simp
    show ?thesis
      unfolding race_def using a b proc seen(2) by (simp add: w')
  next
    case lost
    with adv advance_Checked [OF con lost(1), of w]
    have w': "w' = w\<lparr> idempotency_keys := idempotency_keys w, id_seq := id_seq w + 1 \<rparr>"
      and c': "c' = ?c\<lparr> stage := Settled (Respond 409 conflict_body) \<rparr>"
      by simp_all
    have new: "contender k c'" "stage c' = Settled (Respond 409 conflict_body)"
      using con by (simp_all add: c' contender_stage)
    have a: "\<forall>c\<in>set (cs[i := c']). contender k c \<and>
          (stage c = Arrived \<or> stage c = Checked k \<or> stage c = Settled (Proceed k) \<or>
           stage c = Settled (Respond 409 conflict_body))"
      using sub all new by blast
    have b: "settled_with (Proceed k) (cs[i := c']) = 1"
      using cnt won [OF lost(2)] lost(1) new(2) by simp
    show ?thesis
      unfolding race_def using a b proc lost(2) by (simp add: w')
  next
    case first
    let ?r = "inserted_row (session_zone (caller_env ?c)) (id_seq w)
                   (insert_now (caller_env ?c)) k
                   (req_method (caller_request ?c)) (req_path (caller_request ?c))
                   (req_body (caller_request ?c))"
    from first adv advance_Checked [OF con first(1), of w]
    have w': "w' = w\<lparr> idempotency_keys := idempotency_keys w @ [?r], id_seq := id_seq w + 1 \<rparr>"
      and c': "c' = ?c\<lparr> stage := Settled (Proceed k) \<rparr>"
      by simp_all
    have new: "contender k c'" "stage c' = Settled (Proceed k)"
      using con by (simp_all add: c' contender_stage)
    have a: "\<forall>c\<in>set (cs[i := c']). contender k c \<and>
          (stage c = Arrived \<or> stage c = Checked k \<or> stage c = Settled (Proceed k) \<or>
           stage c = Settled (Respond 409 conflict_body))"
      using sub all new by blast
    have "settled_with (Proceed k) cs = 0"
      using settled_with_none [OF open_race [OF first(2)]] .
    then have b: "settled_with (Proceed k) (cs[i := c']) = 1"
      using cnt first(1) new(2) by simp
    have row: "idempotency_key ?r = k" "processing_status ?r = Processing"
      by (simp_all add: inserted_row_def)
    have p: "\<forall>r\<in>set (idempotency_keys w'). idempotency_key r = k \<longrightarrow> processing_status r = Processing"
      using proc row by (simp add: w')
    have "k \<in> set (map idempotency_key (idempotency_keys w'))"
      using row(1) by (simp add: w')
    then show ?thesis
      unfolding race_def using a b p by simp
  next
    case (settled v)
    with adv have "w' = w" "c' = ?c" by (simp_all add: advance_Settled)
    with inv show ?thesis by simp
  qed
qed

lemma race_interleave:
  "race k w cs \<Longrightarrow> interleave sched w cs = (w', cs') \<Longrightarrow>
     race k w' cs' \<and> length cs' = length cs"
proof (induction sched arbitrary: w cs)
  case Nil
  then show ?case by simp
next
  case (Cons i sched)
  show ?case
  proof (cases "i < length cs")
    case False
    with Cons.prems(2) have "interleave sched w cs = (w', cs')" by simp
    from Cons.IH [OF Cons.prems(1) this] show ?thesis .
  next
    case True
    obtain w1 c1 where adv: "advance w (cs ! i) = (w1, c1)"
      by (cases "advance w (cs ! i)")
    from race_advance [OF Cons.prems(1) True adv]
    have inv: "race k w1 (cs[i := c1])" .
    from Cons.prems(2) True adv have "interleave sched w1 (cs[i := c1]) = (w', cs')"
      by simp
    from Cons.IH [OF inv this] show ?thesis by simp
  qed
qed

lemma one_claim_wins:
  assumes start: "\<forall>c\<in>set cs. contender k c \<and> stage c = Arrived"
    and absent: "k \<notin> set (map idempotency_key (idempotency_keys w))"
    and run: "interleave sched w cs = (w', cs')"
  shows "settled_with (Proceed k) cs' \<le> 1 \<and>
         ((\<forall>c\<in>set cs'. \<exists>v. stage c = Settled v) \<and> cs \<noteq> [] \<longrightarrow>
            settled_with (Proceed k) cs' = 1 \<and>
            settled_with (Respond 409 conflict_body) cs' = length cs - 1)"
proof -
  let ?keys' = "set (map idempotency_key (idempotency_keys w'))"
  from absent have "\<forall>r\<in>set (idempotency_keys w). idempotency_key r \<noteq> k" by force
  with start absent have "race k w cs"
    by (simp add: race_def)
  from race_interleave [OF this run]
  have inv: "race k w' cs'" and len: "length cs' = length cs" by simp_all
  from inv have four: "\<forall>c\<in>set cs'.
          stage c = Arrived \<or> stage c = Checked k \<or> stage c = Settled (Proceed k) \<or>
           stage c = Settled (Respond 409 conflict_body)"
    and won: "k \<in> ?keys' \<Longrightarrow> settled_with (Proceed k) cs' = 1"
    and open_race: "k \<notin> ?keys' \<Longrightarrow> \<forall>c\<in>set cs'. stage c = Arrived \<or> stage c = Checked k"
    by (simp_all add: race_def split: if_splits)
  have most: "settled_with (Proceed k) cs' \<le> 1"
  proof (cases "k \<in> ?keys'")
    case True
    with won show ?thesis by simp
  next
    case False
    from settled_with_none [OF open_race [OF False]] show ?thesis by simp
  qed
  have "settled_with (Proceed k) cs' = 1 \<and>
        settled_with (Respond 409 conflict_body) cs' = length cs - 1"
    if fin: "\<forall>c\<in>set cs'. \<exists>v. stage c = Settled v" and ne: "cs \<noteq> []"
  proof -
    from ne len obtain c where c: "c \<in> set cs'" by (cases cs') auto
    with fin obtain v where "stage c = Settled v" by blast
    with c open_race have "k \<in> ?keys'" by force
    then have one: "settled_with (Proceed k) cs' = 1" by (rule won)
    from four fin have "\<forall>c\<in>set cs'.
        (stage c = Settled (Proceed k)) \<noteq> (stage c = Settled (Respond 409 conflict_body))"
      by force
    from filter_length_split [OF this]
    have "settled_with (Proceed k) cs' + settled_with (Respond 409 conflict_body) cs' = length cs'"
      by (simp add: settled_with_def)
    with one len show ?thesis by simp
  qed
  with most show ?thesis by blast
qed

subsection \<open>Replay of the cached response\<close>

text \<open>
  Claim C2. The claim asks that, once the completion write stored the status and the
  body, every later guarded request with the key is answered with them. Evaluated on
  the code: the handler of the first request with key K1 answers
  \<^verbatim>\<open>res.status(200).json(null)\<close>; the record is completed with status 200 and the
  JSON body \<^verbatim>\<open>null\<close>. The retry with the same key, one microsecond later, is
  answered 409 with the conflict body, not 200 with \<^verbatim>\<open>null\<close>, because the test
  \<^verbatim>\<open>if (cached.response_body)\<close> is a truthiness test. The body \<^verbatim>\<open>0\<close> behaves
  alike.
\<close>

theorem falsy_body_is_not_replayed:
  "idempotency_keys (world_after
      (handle_request empty_world (quiet 0) (post ''K1'' ''/api/payment'' JNull) (Json 200 (Some JNull))))
     = [(inserted_row utc 1 0 ''K1'' ''POST'' ''/api/payment'' (Some JNull))
          \<lparr> response_status := Some 200, response_body := Some JNull,
            processing_status := Completed, updated_at := 0 \<rparr>] \<and>
   reply (handle_request
      (world_after (handle_request empty_world (quiet 0) (post ''K1'' ''/api/payment'' JNull)
         (Json 200 (Some JNull))))
      (quiet 1) (post ''K1'' ''/api/payment'' JNull) d) = Some (409, Some conflict_body) \<and>
   reply (handle_request
      (world_after (handle_request empty_world (quiet 0) (post ''K1'' ''/api/payment'' JNull)
         (Json 200 (Some (JNum 0)))))
      (quiet 1) (post ''K1'' ''/api/payment'' JNull) d) = Some (409, Some conflict_body)"
  by (simp add: run_defs)

text \<open>
  What does hold of replays: a truthy body is replayed with its status to a guarded
  retry that follows the completion, finds a client in the pool and looks the key up
  before the expiry without raising, whatever the retry's method, path and body; the
  handler is not invoked.
\<close>

lemma replay_of_truthy_body:
  assumes claim: "idempotencyMiddleware w e req = (w', Proceed k)"
    and stored: "update_error e = None"
    and body: "truthy b"
    and retry: "guarded_key req' = Some k" "connect_error e' = None" "check_error e' = None"
    and client: "\<not> pool_exhausted (world_after (handle_request w e req (Json s (Some b))))"
    and before: "check_now e' <
        instant_of (session_zone e') (local_time (session_zone e) (insert_now e + interval_24_hours))"
  shows "reply (handle_request (world_after (handle_request w e req (Json s (Some b)))) e' req' d')
           = Some (s, Some b) \<and>
         handler_invoked
           (handle_request (world_after (handle_request w e req (Json s (Some b)))) e' req' d')
           = False \<and>
         idempotency_keys (world_after
           (handle_request (world_after (handle_request w e req (Json s (Some b)))) e' req' d'))
           = idempotency_keys (world_after (handle_request w e req (Json s (Some b))))"
proof -
  let ?r = "inserted_row (session_zone e) (id_seq w) (insert_now e) k (req_method req)
              (req_path req) (req_body req)"
  let ?c = "?r\<lparr> response_status := Some s, response_body := Some b,
                processing_status := Completed,
                updated_at := local_time (session_zone e) (update_now e) \<rparr>"
  from middleware_Proceed [OF claim]
  have fresh: "k \<notin> set (map idempotency_key (idempotency_keys w))"
    and tbl: "idempotency_keys w' = idempotency_keys w @ [?r]"
    by simp_all
  have key: "idempotency_key ?r = k" "idempotency_key ?c = k"
    and ex: "expires_at ?c = local_time (session_zone e) (insert_now e + interval_24_hours)"
    by (simp_all add: inserted_row_def)
  obtain w1 where w1: "world_after (handle_request w e req (Json s (Some b))) = w1"
    and tbl1: "idempotency_keys w1 = idempotency_keys w @ [?c]"
    using claim stored tbl
      updateQuery_fresh_row [OF fresh key(1), of "session_zone e" "update_now e" s "Some b"]
    by (simp add: handle_request_def run_downstream_def res_json_def patched_json_def)
  have sel: "checkQuery (session_zone e') (idempotency_keys w1) (check_now e') k = [?c]"
    using checkQuery_fresh_row [OF fresh key(2), of "session_zone e'" "check_now e'"]
      before ex tbl1 by simp
  have "check_phase (w1\<lparr> connects := connects w1 + 1 \<rparr>) e' k =
          (w1\<lparr> connects := connects w1 + 1 \<rparr>, Some (Respond s b))"
    using sel body retry(3) by (simp add: check_phase_def column_truthy_def)
  with retry client w1 have "idempotencyMiddleware w1 e' req' =
      (w1\<lparr> connects := connects w1 + 1 \<rparr>, Respond s b)"
    by (simp add: idempotencyMiddleware_def)
  then have "handle_request w1 e' req' d' =
      \<lparr> world_after = w1\<lparr> connects := connects w1 + 1 \<rparr>,
        reply = Some (s, Some b), handler_invoked = False \<rparr>"
    by (simp add: handle_request_def)
  then show ?thesis
    unfolding w1 by simp
qed

subsection \<open>Expired records\<close>

text \<open>
  Claim C3. The claim asks that a request whose key has an expired record is treated
  as if no record existed. Evaluated on the code: a request with key K3 was claimed
  at time 0 and completed; its record expired at time 86400000000 and has not been
  swept. One microsecond later the lookup returns no row, but the INSERT meets the
  row through the UNIQUE constraint and returns nothing, so the request is answered
  409, the handler is not invoked and the table is unchanged. Once
  \<^verbatim>\<open>cleanupExpiredKeys\<close> has run at that time the row is gone and the same request
  reaches the handler.
\<close>

theorem expired_row_blocks_claim:
  "world_after (handle_request empty_world (quiet 0) (post ''K3'' ''/api/payment'' JNull)
      (Json 201 (Some (JObj [(''success'', JBool True)])))) = expired_world \<and>
   expires_at expired_row = 86400000000 \<and>
   checkQuery utc (idempotency_keys expired_world) 86400000001 ''K3'' = [] \<and>
   reply (handle_request expired_world (quiet 86400000001) (post ''K3'' ''/api/payment'' JNull) d)
     = Some (409, Some conflict_body) \<and>
   handler_invoked (handle_request expired_world (quiet 86400000001)
      (post ''K3'' ''/api/payment'' JNull) d) = False \<and>
   idempotency_keys (world_after (handle_request expired_world (quiet 86400000001)
      (post ''K3'' ''/api/payment'' JNull) d)) = [expired_row] \<and>
   idempotency_keys (cleanupExpiredKeys expired_world utc 86400000001 None) = [] \<and>
   snd (idempotencyMiddleware (cleanupExpiredKeys expired_world utc 86400000001 None)
      (quiet 86400000001) (post ''K3'' ''/api/payment'' JNull)) = Proceed ''K3''"
  by (simp add: run_defs expired_world_def expired_row_def)

text \<open>
  The behaviour of claim C3 in general: while an expired row of the key is still in
  the table, a guarded request with that key that finds a client in the pool and
  whose statements do not raise is answered 409. A sweep that gets a client removes
  the row.
\<close>

lemma expired_row_conflict:
  assumes uniq: "distinct (map idempotency_key (idempotency_keys w))"
    and rec: "r \<in> set (idempotency_keys w)" "idempotency_key r = k"
      "instant_of (session_zone e) (expires_at r) \<le> check_now e"
    and guarded: "guarded_key req = Some k"
    and client: "\<not> pool_exhausted w"
    and answers: "connect_error e = None" "check_error e = None" "insert_error e = None"
    and fits: "length k \<le> 255" "length (req_method req) \<le> 10" "length (req_path req) \<le> 500"
  shows "reply (handle_request w e req d) = Some (409, Some conflict_body) \<and>
         handler_invoked (handle_request w e req d) = False \<and>
         idempotency_keys (world_after (handle_request w e req d)) = idempotency_keys w"
proof -
  let ?w = "w\<lparr> connects := connects w + 1 \<rparr>"
  have sel: "checkQuery (session_zone e) (idempotency_keys ?w) (check_now e) k = []"
    using checkQuery_unique [OF uniq rec(1), of "session_zone e" "check_now e"] rec by simp
  have chk: "check_phase ?w e k = (?w, None)"
    using sel answers by (simp add: check_phase_def)
  have "k \<in> set (map idempotency_key (idempotency_keys w))"
    using rec by force
  then have ins: "insertQuery (session_zone e) (idempotency_keys w) (id_seq w) (insert_now e) k
           (req_method req) (req_path req) (req_body req)
           = Inr (idempotency_keys w, [])"
    using fits by (simp add: insertQuery_def)
  have mw: "idempotencyMiddleware w e req =
      (w\<lparr> connects := connects w + 1, id_seq := id_seq w + 1 \<rparr>, Respond 409 conflict_body)"
    using chk ins guarded answers client by (simp add: idempotencyMiddleware_def insert_phase_def)
  show ?thesis
    using mw by (simp add: handle_request_def)
qed

lemma sweep_removes_expired:
  "\<not> pool_exhausted w \<Longrightarrow> instant_of z (expires_at r) < now \<Longrightarrow>
     r \<notin> set (idempotency_keys (cleanupExpiredKeys w z now None))"
  by (simp add: cleanupExpiredKeys_def deleteQuery_def)

subsection \<open>Release of the pool client\<close>

text \<open>
  Claim C4. The claim asks that the client is released exactly once on every exit
  path. Evaluated on the code: after a first request that ran to completion one
  client was handed out and one released. Its retry is answered from the cache by
  the \<^verbatim>\<open>return\<close> of line 50: a second client was handed out and none released.
  The same holds for the 409 of line 43, here for a request whose key is still being
  processed, and for the 409 of line 78, here for a request whose insert meets an
  expired row: the connection count rises and the release count stays.
\<close>

theorem early_returns_keep_the_client:
  "connects (world_after (handle_request empty_world (quiet 0) (post ''K4'' ''/api/payment'' JNull)
        (Json 201 (Some (JObj [(''success'', JBool True)]))))) = 1 \<and>
   releases (world_after (handle_request empty_world (quiet 0) (post ''K4'' ''/api/payment'' JNull)
        (Json 201 (Some (JObj [(''success'', JBool True)]))))) = 1 \<and>
   handle_request
     (world_after (handle_request empty_world (quiet 0) (post ''K4'' ''/api/payment'' JNull)
        (Json 201 (Some (JObj [(''success'', JBool True)])))))
     (quiet 1) (post ''K4'' ''/api/payment'' JNull) d
     = \<lparr> world_after =
           (world_after (handle_request empty_world (quiet 0) (post ''K4'' ''/api/payment'' JNull)
              (Json 201 (Some (JObj [(''success'', JBool True)])))))
           \<lparr> connects := 2, releases := 1 \<rparr>,
         reply = Some (201, Some (JObj [(''success'', JBool True)])),
         handler_invoked = False \<rparr> \<and>
   idempotencyMiddleware processing_world (quiet 1) (post ''K4'' ''/api/payment'' JNull)
     = (processing_world\<lparr> connects := 2 \<rparr>, Respond 409 conflict_body) \<and>
   releases (world_after (handle_request processing_world (quiet 1) (post ''K4'' ''/api/payment'' JNull) d)) = 0 \<and>
   connects (world_after (handle_request processing_world (quiet 1) (post ''K4'' ''/api/payment'' JNull) d)) = 2 \<and>
   reply (handle_request expired_world (quiet 86400000001) (post ''K3'' ''/api/payment'' JNull) d)
     = Some (409, Some conflict_body) \<and>
   releases (world_after (handle_request expired_world (quiet 86400000001)
      (post ''K3'' ''/api/payment'' JNull) d)) = releases expired_world \<and>
   connects (world_after (handle_request expired_world (quiet 86400000001)
      (post ''K3'' ''/api/payment'' JNull) d)) = connects expired_world + 1"
  by (simp add: run_defs processing_world_def expired_world_def expired_row_def)

text \<open>
  In general: whenever the middleware itself answers (either 409 or the replay) it has
  taken a client and released none.
\<close>

lemma insert_phase_Respond:
  "insert_phase w e req k = (w', Respond s b) \<Longrightarrow>
     releases w' = releases w \<and> connects w' = connects w"
  by (auto simp: insert_phase_def caught_def split: option.splits sum.splits list.splits prod.splits)

lemma respond_never_releases:
  assumes "idempotencyMiddleware w e req = (w', Respond s b)"
  shows "connects w' = connects w + 1 \<and> releases w' = releases w"
proof -
  from assms obtain k where k: "guarded_key req = Some k" and c: "connect_error e = None"
    and p: "\<not> pool_exhausted w"
    by (auto simp: idempotencyMiddleware_def split: option.splits if_splits)
  let ?w = "w\<lparr> connects := connects w + 1 \<rparr>"
  obtain w1 v where chk: "check_phase ?w e k = (w1, v)" by (cases "check_phase ?w e k")
  show ?thesis
  proof (cases v)
    case None
    with chk have "w1 = ?w" by (simp add: check_phase_None)
    moreover from assms k c p chk None have "insert_phase w1 e req k = (w', Respond s b)"
      by (simp add: idempotencyMiddleware_def)
    ultimately show ?thesis using insert_phase_Respond [of ?w e req k w' s b] by simp
  next
    case (Some v')
    with assms k c p chk have "v' = Respond s b" "w' = w1"
      by (simp_all add: idempotencyMiddleware_def)
    with chk Some check_phase_verdict [of ?w e k w1 v'] show ?thesis by auto
  qed
qed

text \<open>
  The other exits do release once: the catch block, and the patched \<^verbatim>\<open>res.json\<close>
  whether or not its UPDATE raises.
\<close>

lemma forward_releases_once:
  assumes "idempotencyMiddleware w e req = (w', Forward msg)"
  shows "connects w' = connects w + 1 \<and> releases w' = releases w + 1"
proof -
  from assms obtain k where k: "guarded_key req = Some k" and c: "connect_error e = None"
    and p: "\<not> pool_exhausted w"
    by (auto simp: idempotencyMiddleware_def split: option.splits if_splits)
  let ?w = "w\<lparr> connects := connects w + 1 \<rparr>"
  obtain w1 v where chk: "check_phase ?w e k = (w1, v)" by (cases "check_phase ?w e k")
  show ?thesis
  proof (cases v)
    case None
    with chk have w1: "w1 = ?w" by (simp add: check_phase_None)
    from assms k c p chk None have "insert_phase w1 e req k = (w', Forward msg)"
      by (simp add: idempotencyMiddleware_def)
    then show ?thesis
      unfolding w1
      by (auto simp: insert_phase_def caught_def
          split: option.splits sum.splits list.splits prod.splits)
  next
    case (Some v')
    with assms k c p chk have "v' = Forward msg" "w' = w1"
      by (simp_all add: idempotencyMiddleware_def)
    with chk Some check_phase_verdict [of ?w e k w1 v'] show ?thesis by auto
  qed
qed

lemma patched_json_releases_once:
  "releases (patched_json w e k s b) = releases w + 1 \<and>
   connects (patched_json w e k s b) = connects w"
  by (simp add: patched_json_def split: option.splits)

subsection \<open>Failure of the downstream handler\<close>

text \<open>
  Claim C5, as stated, fails for a handler whose error reaches the error-handling
  middleware of lines 265 to 271 (a synchronous throw, or \<^verbatim>\<open>next(err)\<close>): that
  middleware answers with \<^verbatim>\<open>res.status(500).json\<close>, which is the patched
  \<^verbatim>\<open>res.json\<close>, so the record is completed with status 500 and the error body, and
  the retry is answered with that cached 500, not with 409.
\<close>

theorem thrown_error_is_cached:
  "idempotency_keys (world_after
      (handle_request empty_world (quiet 0) (post ''K4'' ''/api/payment'' JNull) (Throws ''boom'')))
     = [(inserted_row utc 1 0 ''K4'' ''POST'' ''/api/payment'' (Some JNull))
          \<lparr> response_status := Some 500, response_body := Some (error_body ''boom''),
            processing_status := Completed, updated_at := 0 \<rparr>] \<and>
   handle_request
      (world_after (handle_request empty_world (quiet 0) (post ''K4'' ''/api/payment'' JNull) (Throws ''boom'')))
      (quiet 1) (post ''K4'' ''/api/payment'' JNull) (Json 201 (Some JNull))
     = \<lparr> world_after =
           (world_after (handle_request empty_world (quiet 0) (post ''K4'' ''/api/payment'' JNull)
              (Throws ''boom'')))\<lparr> connects := 2 \<rparr>,
         reply = Some (500, Some (error_body ''boom'')),
         handler_invoked = False \<rparr>"
  by (simp add: run_defs error_body_def)

text \<open>
  A record that is the only row of its key stays so through every request, whatever
  its key, environment and handler, through every restart and through every sweep
  that does not find it expired: no insert of that key succeeds, and the completion
  write of another key does not touch it.
\<close>

lemma holds_key_append:
  "holds_key r tbl \<Longrightarrow> idempotency_key row \<noteq> idempotency_key r \<Longrightarrow> holds_key r (tbl @ [row])"
  by (auto simp: holds_key_def)

lemma holds_key_update:
  assumes "holds_key r tbl" and "k \<noteq> idempotency_key r"
  shows "holds_key r (updateQuery z tbl now s b k)"
proof -
  from assms have "r \<in> set (updateQuery z tbl now s b k)"
    by (simp add: holds_key_def updateQuery_keeps)
  moreover have "r' = r"
    if "r' \<in> set (updateQuery z tbl now s b k)" "idempotency_key r' = idempotency_key r" for r'
  proof -
    from that assms(2) have "r' \<in> set tbl" by (simp add: updateQuery_others)
    with that(2) assms(1) show ?thesis by (simp add: holds_key_def)
  qed
  ultimately show ?thesis by (simp add: holds_key_def)
qed

lemma holds_key_delete:
  "holds_key r tbl \<Longrightarrow> \<not> instant_of z (expires_at r) < now \<Longrightarrow>
     holds_key r (fst (deleteQuery z tbl now))"
  by (simp add: holds_key_def deleteQuery_def)

lemma res_json_table:
  "idempotency_keys (res_json patch w e s b) = idempotency_keys w \<or>
   (\<exists>k. patch = Some k \<and>
      idempotency_keys (res_json patch w e s b)
        = updateQuery (session_zone e) (idempotency_keys w) (update_now e) s b k)"
  by (simp add: res_json_def patched_json_def split: option.splits)

lemma run_downstream_table:
  "idempotency_keys (world_after (run_downstream patch w e d)) = idempotency_keys w \<or>
   (\<exists>k s b. patch = Some k \<and>
      idempotency_keys (world_after (run_downstream patch w e d))
        = updateQuery (session_zone e) (idempotency_keys w) (update_now e) s b k)"
proof (cases d)
  case (Json s b)
  with res_json_table [of patch w e s b] show ?thesis
    by (auto simp: run_downstream_def)
next
  case (Throws msg)
  with res_json_table [of patch "w\<lparr> console := console w @ [ErrStack msg] \<rparr>" e 500
      "Some (error_body msg)"]
  show ?thesis by (auto simp: run_downstream_def errorHandler_def)
next
  case (Rejects msg)
  with res_json_table [of patch "w\<lparr> console := console w @ [ErrStack msg] \<rparr>" e 500
      "Some (error_body msg)"]
  show ?thesis by (auto simp: run_downstream_def errorHandler_def)
next
  case Hangs
  then show ?thesis by (simp add: run_downstream_def)
qed

lemma handle_request_holds:
  assumes held: "holds_key r (idempotency_keys w)"
  shows "holds_key r (idempotency_keys (world_after (handle_request w e req d)))"
proof -
  obtain w' v where mw: "idempotencyMiddleware w e req = (w', v)"
    by (cases "idempotencyMiddleware w e req")
  show ?thesis
  proof (cases "\<exists>k. v = Proceed k")
    case True
    then obtain k where v: "v = Proceed k" by blast
    let ?row = "inserted_row (session_zone e) (id_seq w) (insert_now e) k (req_method req)
                  (req_path req) (req_body req)"
    from middleware_Proceed [OF mw [unfolded v]]
    have fresh: "k \<notin> set (map idempotency_key (idempotency_keys w))"
      and tbl: "idempotency_keys w' = idempotency_keys w @ [?row]"
      by simp_all
    from held have "idempotency_key r \<in> set (map idempotency_key (idempotency_keys w))"
      by (simp add: holds_key_def)
    with fresh have other: "k \<noteq> idempotency_key r" by blast
    have "idempotency_key ?row = k" by (simp add: inserted_row_def)
    with other held have h': "holds_key r (idempotency_keys w')"
      unfolding tbl by (simp add: holds_key_append)
    from mw v have hr: "handle_request w e req d = run_downstream (Some k) w' e d"
      by (simp add: handle_request_def)
    from run_downstream_table [of "Some k" w' e d] h' other show ?thesis
      unfolding hr by (auto simp: holds_key_update)
  next
    case False
    then have same: "idempotency_keys w' = idempotency_keys w"
      using middleware_table [OF mw] by blast
    have "idempotency_keys (world_after (handle_request w e req d)) = idempotency_keys w'"
    proof (cases v)
      case Bypass
      with mw run_downstream_table [of None w' e d] show ?thesis
        by (simp add: handle_request_def)
    next
      case (Respond s b)
      with mw show ?thesis by (simp add: handle_request_def)
    next
      case (Proceed k)
      with False show ?thesis by simp
    next
      case (Forward msg)
      with mw show ?thesis by (simp add: handle_request_def errorHandler_def res_json_def)
    next
      case (Rejected msg)
      with mw show ?thesis by (simp add: handle_request_def errorHandler_def res_json_def)
    next
      case Stalled
      with mw show ?thesis by (simp add: handle_request_def)
    qed
    with same held show ?thesis by simp
  qed
qed

lemma occur_holds:
  assumes "holds_key r (idempotency_keys w)" and "spares r ev"
  shows "holds_key r (idempotency_keys (occur w ev))"
proof (cases ev)
  case (Request e req d)
  with handle_request_holds [OF assms(1)] show ?thesis by simp
next
  case (Sweep z now failure)
  with assms have kept: "holds_key r (fst (deleteQuery z (idempotency_keys w) now))"
    by (simp add: holds_key_delete)
  obtain tbl n where del: "deleteQuery z (idempotency_keys w) now = (tbl, n)"
    by (cases "deleteQuery z (idempotency_keys w) now")
  with kept have "holds_key r tbl" by simp
  with Sweep del assms(1) show ?thesis
    by (simp add: cleanupExpiredKeys_def split: option.splits)
next
  case Restart
  with assms(1) show ?thesis by simp
qed

lemma foldl_occur_holds:
  "holds_key r (idempotency_keys w) \<Longrightarrow> \<forall>ev\<in>set evs. spares r ev \<Longrightarrow>
     holds_key r (idempotency_keys (foldl occur w evs))"
proof (induction evs arbitrary: w)
  case Nil
  then show ?case by simp
next
  case (Cons ev evs)
  from Cons.prems have "holds_key r (idempotency_keys (occur w ev))"
    by (simp add: occur_holds)
  moreover from Cons.prems(2) have "\<forall>ev\<in>set evs. spares r ev" by simp
  ultimately show ?case using Cons.IH by simp
qed

lemma checkQuery_held:
  assumes held: "holds_key r tbl" and alive: "now < instant_of z (expires_at r)"
  shows "\<exists>rest. checkQuery z tbl now (idempotency_key r) = r # rest"
proof -
  let ?rows = "checkQuery z tbl now (idempotency_key r)"
  from held alive have "r \<in> set ?rows"
    by (simp add: holds_key_def checkQuery_def)
  then obtain first rest where rows: "?rows = first # rest"
    by (cases ?rows) auto
  then have "first \<in> set ?rows" by simp
  then have "first \<in> set tbl" "idempotency_key first = idempotency_key r"
    by (simp_all add: checkQuery_def)
  with held have "first = r" by (simp add: holds_key_def)
  with rows show ?thesis by simp
qed

text \<open>
  Claim C5, amended. When the claim of a request succeeded and its handler fails
  without any call of \<^verbatim>\<open>res.json\<close> following (its promise rejects and Express does
  not forward rejections, or it never answers), nothing is sent and the world stays as
  the claim left it. After any later events, that is requests of any kind, restarts
  of the server and sweeps that do not find the record expired, the record of the key
  is still in the table as the claim wrote it, in state processing with no response,
  and is the only row of its key. A guarded retry with the key that then finds a
  client in the pool, and whose lookup does not raise and runs before the record's
  \<^verbatim>\<open>expires_at\<close>, is answered 409 with the conflict body, without the handler being
  invoked and without any change to the table.
\<close>

theorem unanswered_failure_keeps_lock:
  assumes claim: "idempotencyMiddleware w e req = (w', Proceed k)"
    and fails: "never_answers e d"
    and written: "r = inserted_row (session_zone e) (id_seq w) (insert_now e) k
                      (req_method req) (req_path req) (req_body req)"
    and later: "\<forall>ev\<in>set evs. spares r ev"
    and retry: "guarded_key req' = Some k"
    and client: "\<not> pool_exhausted (foldl occur w' evs)"
    and answers: "connect_error e' = None" "check_error e' = None"
    and before: "check_now e' < instant_of (session_zone e') (expires_at r)"
  shows "world_after (handle_request w e req d) = w' \<and>
         reply (handle_request w e req d) = None \<and>
         idempotency_keys w' = idempotency_keys w @ [r] \<and>
         idempotency_key r = k \<and> processing_status r = Processing \<and>
         response_status r = None \<and> response_body r = None \<and>
         holds_key r (idempotency_keys (foldl occur w' evs)) \<and>
         reply (handle_request (foldl occur w' evs) e' req' d') = Some (409, Some conflict_body) \<and>
         handler_invoked (handle_request (foldl occur w' evs) e' req' d') = False \<and>
         idempotency_keys (world_after (handle_request (foldl occur w' evs) e' req' d'))
           = idempotency_keys (foldl occur w' evs)"
proof -
  let ?w2 = "foldl occur w' evs"
  from middleware_Proceed [OF claim]
  have fresh: "k \<notin> set (map idempotency_key (idempotency_keys w))"
    and tbl: "idempotency_keys w' = idempotency_keys w @ [r]"
    by (simp_all add: written)
  have row: "idempotency_key r = k" "processing_status r = Processing"
    "response_status r = None" "response_body r = None"
    by (simp_all add: written inserted_row_def)
  from fails claim
  have first: "handle_request w e req d =
      \<lparr> world_after = w', reply = None, handler_invoked = True \<rparr>"
    by (cases d) (simp_all add: never_answers_def handle_request_def run_downstream_def)
  have "r' = r" if "r' \<in> set (idempotency_keys w)" "idempotency_key r' = idempotency_key r" for r'
  proof -
    from that(1) have "idempotency_key r' \<in> set (map idempotency_key (idempotency_keys w))"
      by simp
    with that(2) row(1) fresh show ?thesis by simp
  qed
  then have "holds_key r (idempotency_keys w')"
    unfolding tbl by (simp add: holds_key_def)
  from foldl_occur_holds [OF this later]
  have held: "holds_key r (idempotency_keys ?w2)" .
  from checkQuery_held [OF held before] row(1)
  obtain rest where sel:
    "checkQuery (session_zone e') (idempotency_keys ?w2) (check_now e') k = r # rest"
    by auto
  have "check_phase (?w2\<lparr> connects := connects ?w2 + 1 \<rparr>) e' k =
          (?w2\<lparr> connects := connects ?w2 + 1 \<rparr>, Some (Respond 409 conflict_body))"
    using sel row(2) answers(2) by (simp add: check_phase_def)
  with retry client answers(1) have "idempotencyMiddleware ?w2 e' req' =
      (?w2\<lparr> connects := connects ?w2 + 1 \<rparr>, Respond 409 conflict_body)"
    by (simp add: idempotencyMiddleware_def)
  then have second: "handle_request ?w2 e' req' d' =
      \<lparr> world_after = ?w2\<lparr> connects := connects ?w2 + 1 \<rparr>,
        reply = Some (409, Some conflict_body), handler_invoked = False \<rparr>"
    by (simp add: handle_request_def)
  show ?thesis
    using first second tbl row held by simp
qed

theorem unanswered_failure_keeps_lock_witness:
  "idempotencyMiddleware empty_world (quiet 0) (post ''K4'' ''/api/payment'' JNull)
     = (processing_world, Proceed ''K4'') \<and>
   never_answers (quiet 0) (Rejects ''User not found'') \<and>
   world_after (handle_request empty_world (quiet 0) (post ''K4'' ''/api/payment'' JNull)
      (Rejects ''User not found'')) = processing_world \<and>
   \<not> pool_exhausted (foldl occur processing_world later_events) \<and>
   reply (handle_request (foldl occur processing_world later_events) (quiet 7)
      (post ''K4'' ''/api/payment'' JNull) (Json 201 (Some JNull)))
     = Some (409, Some conflict_body) \<and>
   handler_invoked (handle_request (foldl occur processing_world later_events) (quiet 7)
      (post ''K4'' ''/api/payment'' JNull) (Json 201 (Some JNull))) = False"
proof -
  let ?r = "inserted_row (session_zone (quiet 0)) (id_seq empty_world) (insert_now (quiet 0))
              ''K4'' (req_method (post ''K4'' ''/api/payment'' JNull))
              (req_path (post ''K4'' ''/api/payment'' JNull))
              (req_body (post ''K4'' ''/api/payment'' JNull))"
  have claim: "idempotencyMiddleware empty_world (quiet 0) (post ''K4'' ''/api/payment'' JNull)
     = (processing_world, Proceed ''K4'')"
    by (simp add: idempotencyMiddleware_def guarded_key_def check_phase_def insert_phase_def
        checkQuery_def insertQuery_def empty_world_def quiet_def post_def processing_world_def
        pool_exhausted_def pool_max_def utc_def)
  have fails: "never_answers (quiet 0) (Rejects ''User not found'')"
    by (simp add: never_answers_def quiet_def)
  have later: "\<forall>ev\<in>set later_events. spares ?r ev"
    by (simp add: later_events_def inserted_row_def interval_24_hours_def quiet_def utc_def)
  have retry: "guarded_key (post ''K4'' ''/api/payment'' JNull) = Some ''K4''"
    by (simp add: guarded_key_def post_def)
  have client: "\<not> pool_exhausted (foldl occur processing_world later_events)"
    by (simp add: later_events_def run_defs processing_world_def)
  have answers: "connect_error (quiet 7) = None" "check_error (quiet 7) = None"
    by (simp_all add: quiet_def)
  have before: "check_now (quiet 7) < instant_of (session_zone (quiet 7)) (expires_at ?r)"
    by (simp add: quiet_def utc_def inserted_row_def interval_24_hours_def)
  note main = unanswered_failure_keeps_lock
    [OF claim fails refl later retry client answers before,
      where d' = "Json 201 (Some JNull)"]
  from main have stay: "world_after (handle_request empty_world (quiet 0)
      (post ''K4'' ''/api/payment'' JNull) (Rejects ''User not found'')) = processing_world"
    by (rule conjunct1)
  from main claim fails client stay show ?thesis by simp
qed

subsection \<open>Failure of the completion write\<close>

text \<open>
  Claim C6. When the claim of a guarded request succeeded (the middleware reached
  \<^verbatim>\<open>next()\<close> with the patched \<^verbatim>\<open>res.json\<close>) and the UPDATE that stores the
  response raises, the handler's \<^verbatim>\<open>res.status(s).json(b)\<close> still sends exactly the
  status \<open>s\<close> and the body \<open>b\<close>; the error is logged as
  \<^verbatim>\<open>Failed to cache response:\<close>, the table is left as the claim made it and the
  client is released once.
\<close>

theorem completion_write_failure:
  assumes "idempotencyMiddleware w e req = (w', Proceed k)"
    and "update_error e = Some msg"
  shows "reply (handle_request w e req (Json s b)) = Some (s, b) \<and>
         handler_invoked (handle_request w e req (Json s b)) \<and>
         console (world_after (handle_request w e req (Json s b))) = console w' @ [FailedToCache msg] \<and>
         idempotency_keys (world_after (handle_request w e req (Json s b))) = idempotency_keys w' \<and>
         releases (world_after (handle_request w e req (Json s b))) = releases w' + 1"
  using assms
  by (simp add: handle_request_def run_downstream_def res_json_def patched_json_def)

theorem completion_write_failure_witness:
  "idempotencyMiddleware empty_world (update_down 5) (post ''K6'' ''/api/orders'' JNull) =
     (empty_world\<lparr> idempotency_keys := [inserted_row utc 1 5 ''K6'' ''POST'' ''/api/orders'' (Some JNull)],
         id_seq := 2, connects := 1 \<rparr>, Proceed ''K6'') \<and>
   update_error (update_down 5) = Some ''connection terminated'' \<and>
   reply (handle_request empty_world (update_down 5) (post ''K6'' ''/api/orders'' JNull)
            (Json 201 (Some (JObj [(''success'', JBool True)])))) =
     Some (201, Some (JObj [(''success'', JBool True)])) \<and>
   console (world_after (handle_request empty_world (update_down 5) (post ''K6'' ''/api/orders'' JNull)
            (Json 201 (Some (JObj [(''success'', JBool True)]))))) =
     [FailedToCache ''connection terminated'']"
proof -
  have run: "idempotencyMiddleware empty_world (update_down 5) (post ''K6'' ''/api/orders'' JNull) =
     (empty_world\<lparr> idempotency_keys := [inserted_row utc 1 5 ''K6'' ''POST'' ''/api/orders'' (Some JNull)],
         id_seq := 2, connects := 1 \<rparr>, Proceed ''K6'')"
    by (simp add: idempotencyMiddleware_def guarded_key_def check_phase_def insert_phase_def
        checkQuery_def insertQuery_def empty_world_def quiet_def update_down_def post_def
        pool_exhausted_def pool_max_def utc_def)
  have down: "update_error (update_down 5) = Some ''connection terminated''"
    by (simp add: update_down_def)
  from completion_write_failure [OF run down, of 201 "Some (JObj [(''success'', JBool True)])"]
  show ?thesis using run down by (simp add: empty_world_def)
qed

subsection \<open>Requests that bypass the gate\<close>

text \<open>
  Claim C7. The claim asks that every request with a read-only method bypasses the
  gate, and the comment of line 20 says that the gate applies to POST, PATCH and
  DELETE only. Evaluated on the code: line 21 exempts the method GET and no other, so
  a HEAD request that carries the key of a record in state processing takes a client,
  goes through the lookup and is answered 409 without the handler being invoked.
\<close>

theorem head_request_is_gated:
  "idempotencyMiddleware processing_world (quiet 1)
      (with_method ''HEAD'' (post ''K4'' ''/api/payment'' JNull))
     = (processing_world\<lparr> connects := 2 \<rparr>, Respond 409 conflict_body) \<and>
   handler_invoked (handle_request processing_world (quiet 1)
      (with_method ''HEAD'' (post ''K4'' ''/api/payment'' JNull)) (Json 200 (Some JNull))) = False \<and>
   reply (handle_request processing_world (quiet 1)
      (with_method ''HEAD'' (post ''K4'' ''/api/payment'' JNull)) (Json 200 (Some JNull)))
     = Some (409, Some conflict_body)"
  by (simp add: run_defs processing_world_def with_method_def)

text \<open>
  What does hold of the bypass: a request without the \<^verbatim>\<open>idempotency-key\<close> header (or
  with an empty one), and a request whose method is GET, goes straight to
  \<^verbatim>\<open>next()\<close> whatever the state of the store and of the pool: the handler runs, no
  client is taken, the table, the sequence and the release count are unchanged, and
  what the handler answers is what the client receives.
\<close>

lemma gate_bypass:
  assumes "header_idempotency_key req = None \<or> header_idempotency_key req = Some [] \<or>
           req_method req = ''GET''"
  shows "idempotencyMiddleware w e req = (w, Bypass) \<and>
         handle_request w e req d = run_downstream None w e d \<and>
         handler_invoked (handle_request w e req d) \<and>
         idempotency_keys (world_after (handle_request w e req d)) = idempotency_keys w \<and>
         id_seq (world_after (handle_request w e req d)) = id_seq w \<and>
         connects (world_after (handle_request w e req d)) = connects w \<and>
         releases (world_after (handle_request w e req d)) = releases w \<and>
         reply (handle_request w e req (Json s b)) = Some (s, b)"
proof -
  from assms have "guarded_key req = None"
    by (auto simp: guarded_key_def split: option.splits)
  then have mw: "idempotencyMiddleware w e req = (w, Bypass)"
    by (simp add: idempotencyMiddleware_def)
  then have hr: "handle_request w e req d' = run_downstream None w e d'" for d'
    by (simp add: handle_request_def)
  have "handler_invoked (run_downstream None w e d)"
    and "idempotency_keys (world_after (run_downstream None w e d)) = idempotency_keys w"
    and "id_seq (world_after (run_downstream None w e d)) = id_seq w"
    and "connects (world_after (run_downstream None w e d)) = connects w"
    and "releases (world_after (run_downstream None w e d)) = releases w"
    by (cases d; simp add: run_downstream_def errorHandler_def res_json_def)+
  moreover have "reply (run_downstream None w e (Json s b)) = Some (s, b)"
    by (simp add: run_downstream_def)
  ultimately show ?thesis using mw hr by simp
qed

lemma gate_bypass_on_health_check:
  "req_method (with_method ''GET'' (post ''K4'' ''/health'' JNull)) = ''GET'' \<and>
   idempotencyMiddleware processing_world (quiet 1) (with_method ''GET'' (post ''K4'' ''/health'' JNull))
     = (processing_world, Bypass) \<and>
   reply (handle_request processing_world (quiet 1) (with_method ''GET'' (post ''K4'' ''/health'' JNull))
     (Json 200 (Some (JObj [(''status'', JStr ''ok'')])))) =
     Some (200, Some (JObj [(''status'', JStr ''ok'')]))"
  using gate_bypass [of "with_method ''GET'' (post ''K4'' ''/health'' JNull)" processing_world
      "quiet 1" Hangs 200 "Some (JObj [(''status'', JStr ''ok'')])"]
  by (simp add: with_method_def post_def)

subsection \<open>Presence of the response columns\<close>














subsection \<open>Time to live\<close>

text \<open>
  Claim C9, as stated, fails in a session whose time zone changes its offset during
  the 24 hours: the two columns hold wall-clock readings. A claim at instant 0 in the
  zone where summer time ends one hour later stores the reading 7200000000 in
  \<^verbatim>\<open>created_at\<close> and the reading 90000000000 in \<^verbatim>\<open>expires_at\<close>, which is 23 hours
  after \<^verbatim>\<open>created_at\<close>, not 24.
\<close>

theorem summer_time_shortens_ttl:
  "idempotencyMiddleware empty_world (autumn 0) (post ''K9'' ''/api/payment'' JNull) =
     (empty_world\<lparr> idempotency_keys :=
          [inserted_row summer_ends 1 0 ''K9'' ''POST'' ''/api/payment'' (Some JNull)],
         id_seq := 2, connects := 1 \<rparr>, Proceed ''K9'') \<and>
   created_at (inserted_row summer_ends 1 0 ''K9'' ''POST'' ''/api/payment'' (Some JNull))
     = 7200000000 \<and>
   expires_at (inserted_row summer_ends 1 0 ''K9'' ''POST'' ''/api/payment'' (Some JNull))
     = 90000000000 \<and>
   expires_at (inserted_row summer_ends 1 0 ''K9'' ''POST'' ''/api/payment'' (Some JNull)) =
   created_at (inserted_row summer_ends 1 0 ''K9'' ''POST'' ''/api/payment'' (Some JNull))
     + 23 * 60 * 60 * 1000000 \<and>
   expires_at (inserted_row summer_ends 1 0 ''K9'' ''POST'' ''/api/payment'' (Some JNull)) \<noteq>
   created_at (inserted_row summer_ends 1 0 ''K9'' ''POST'' ''/api/payment'' (Some JNull))
     + 24 * 60 * 60 * 1000000"
  by (simp add: idempotencyMiddleware_def guarded_key_def check_phase_def insert_phase_def
      checkQuery_def insertQuery_def inserted_row_def interval_24_hours_def
      pool_exhausted_def pool_max_def empty_world_def autumn_def quiet_def post_def
      summer_ends_def)

text \<open>
  Claim C9, amended. In a session whose time zone has one offset from universal time
  throughout, a claim that succeeds appends one record whose \<^verbatim>\<open>created_at\<close> is the
  reading of the \<^verbatim>\<open>NOW()\<close> of the insert and whose \<^verbatim>\<open>expires_at\<close> is exactly 24
  hours (86400000000 microseconds) later. In such a session the lookup of the key
  returns that record at the instants strictly before 24 hours after the insert and
  at no other, and the DELETE of \<^verbatim>\<open>cleanupExpiredKeys\<close> removes it at the instants
  strictly after that one and at no other.
\<close>

theorem ttl_arithmetic:
  assumes "idempotencyMiddleware w e req = (w', Proceed k)"
    and "fixed_offset c (session_zone e)"
  shows "\<exists>r. idempotency_keys w' = idempotency_keys w @ [r] \<and>
           idempotency_key r = k \<and>
           created_at r = insert_now e + c \<and>
           expires_at r = created_at r + 24 * 60 * 60 * 1000000 \<and>
           (\<forall>t. (r \<in> set (checkQuery (session_zone e) (idempotency_keys w') t k)) =
                 (t < insert_now e + 24 * 60 * 60 * 1000000)) \<and>
           (\<forall>t. (r \<notin> set (fst (deleteQuery (session_zone e) (idempotency_keys w') t))) =
                 (insert_now e + 24 * 60 * 60 * 1000000 < t))"
proof -
  let ?z = "session_zone e"
  let ?r = "inserted_row ?z (id_seq w) (insert_now e) k (req_method req) (req_path req)
              (req_body req)"
  from assms(2) have loc: "local_time ?z x = x + c" and ins: "instant_of ?z y = y - c" for x y
    by (simp_all add: fixed_offset_def)
  from middleware_Proceed [OF assms(1)]
  have tbl: "idempotency_keys w' = idempotency_keys w @ [?r]"
    and fresh: "k \<notin> set (map idempotency_key (idempotency_keys w))"
    by simp_all
  have key: "idempotency_key ?r = k" and cr: "created_at ?r = insert_now e + c"
    and ex: "expires_at ?r = created_at ?r + 24 * 60 * 60 * 1000000"
    by (simp_all add: inserted_row_def interval_24_hours_def loc)
  have readback: "instant_of ?z (expires_at ?r) = insert_now e + 24 * 60 * 60 * 1000000"
    by (simp add: ex cr ins)
  have vis: "(?r \<in> set (checkQuery ?z (idempotency_keys w') t k)) =
      (t < insert_now e + 24 * 60 * 60 * 1000000)" for t
    using key readback by (simp add: tbl checkQuery_def del: One_nat_def)
  have old: "?r \<notin> set (idempotency_keys w)"
    using fresh key by force
  have swept: "(?r \<notin> set (fst (deleteQuery ?z (idempotency_keys w') t))) =
      (insert_now e + 24 * 60 * 60 * 1000000 < t)" for t
    using old readback by (auto simp: tbl deleteQuery_def)
  show ?thesis
    using tbl key cr ex vis swept by blast
qed

theorem ttl_arithmetic_witness:
  "idempotencyMiddleware empty_world (quiet 5) (post ''K9'' ''/api/payment'' JNull) =
     (empty_world\<lparr> idempotency_keys :=
          [inserted_row utc 1 5 ''K9'' ''POST'' ''/api/payment'' (Some JNull)],
         id_seq := 2, connects := 1 \<rparr>, Proceed ''K9'') \<and>
   fixed_offset 0 (session_zone (quiet 5)) \<and>
   (\<exists>r. idempotency_keys (empty_world\<lparr> idempotency_keys :=
          [inserted_row utc 1 5 ''K9'' ''POST'' ''/api/payment'' (Some JNull)],
         id_seq := 2, connects := 1 \<rparr>) = idempotency_keys empty_world @ [r] \<and>
        created_at r = 5 \<and> expires_at r = 5 + 24 * 60 * 60 * 1000000)"
proof -
  have run: "idempotencyMiddleware empty_world (quiet 5) (post ''K9'' ''/api/payment'' JNull) =
     (empty_world\<lparr> idempotency_keys :=
          [inserted_row utc 1 5 ''K9'' ''POST'' ''/api/payment'' (Some JNull)],
         id_seq := 2, connects := 1 \<rparr>, Proceed ''K9'')"
    by (simp add: idempotencyMiddleware_def guarded_key_def check_phase_def insert_phase_def
        checkQuery_def insertQuery_def empty_world_def quiet_def post_def
        pool_exhausted_def pool_max_def utc_def)
  have zone: "fixed_offset 0 (session_zone (quiet 5))"
    by (simp add: fixed_offset_def quiet_def utc_def)
  from ttl_arithmetic [OF run zone] show ?thesis
    using run zone by (auto simp: quiet_def)
qed

subsection \<open>A completed record without a usable body\<close>

text \<open>
  Claim C10, as stated, fails for a request whose method does not fit the column
  \<^verbatim>\<open>request_method VARCHAR(10)\<close>: the record of key K10 is completed with the JSON
  body \<^verbatim>\<open>null\<close> and has not expired; a request with that key and the method
  UNSUBSCRIBE falls through the replay test, its INSERT raises, and the
  error-handling middleware answers 500, not 409.
\<close>

theorem long_method_is_answered_500:
  "null_body_row \<in> set (idempotency_keys null_body_world) \<and>
   processing_status null_body_row = Completed \<and>
   response_body null_body_row = Some JNull \<and>
   check_now (quiet 7) < instant_of (session_zone (quiet 7)) (expires_at null_body_row) \<and>
   guarded_key (with_method ''UNSUBSCRIBE'' (post ''K10'' ''/api/payment'' JNull)) = Some ''K10'' \<and>
   reply (handle_request null_body_world (quiet 7)
      (with_method ''UNSUBSCRIBE'' (post ''K10'' ''/api/payment'' JNull)) Hangs)
     = Some (500, Some (error_body ''value too long for type character varying''))"
  by (simp add: run_defs null_body_world_def null_body_row_def with_method_def)

text \<open>
  Claim C10, amended. Let the table hold at most one row per key, and let the
  unexpired record of key \<open>k\<close> be completed with a response body that is NULL or the
  JSON \<^verbatim>\<open>null\<close>. A guarded request with key \<open>k\<close> that finds a client in the pool,
  whose key, method and path fit their columns and whose statements do not raise,
  falls through the replay test; its insert meets the conflict and returns no row;
  the answer is 409 with the conflict body, the downstream handler is not invoked and
  the table is unchanged.
\<close>

theorem defensive_fallback:
  assumes uniq: "distinct (map idempotency_key (idempotency_keys w))"
    and rec: "r \<in> set (idempotency_keys w)" "idempotency_key r = k"
      "check_now e < instant_of (session_zone e) (expires_at r)"
    and anomalous: "processing_status r = Completed"
      "response_body r = None \<or> response_body r = Some JNull"
    and guarded: "guarded_key req = Some k"
    and client: "\<not> pool_exhausted w"
    and answers: "connect_error e = None" "check_error e = None" "insert_error e = None"
    and fits: "length k \<le> 255" "length (req_method req) \<le> 10" "length (req_path req) \<le> 500"
  shows "check_phase (w\<lparr> connects := connects w + 1 \<rparr>) e k =
           (w\<lparr> connects := connects w + 1 \<rparr>, None) \<and>
         insertQuery (session_zone e) (idempotency_keys w) (id_seq w) (insert_now e) k
           (req_method req) (req_path req) (req_body req)
           = Inr (idempotency_keys w, []) \<and>
         snd (idempotencyMiddleware w e req) = Respond 409 conflict_body \<and>
         reply (handle_request w e req d) = Some (409, Some conflict_body) \<and>
         handler_invoked (handle_request w e req d) = False \<and>
         idempotency_keys (world_after (handle_request w e req d)) = idempotency_keys w"
proof -
  let ?w = "w\<lparr> connects := connects w + 1 \<rparr>"
  have sel: "checkQuery (session_zone e) (idempotency_keys ?w) (check_now e) k = [r]"
    using checkQuery_unique [OF uniq rec(1), of "session_zone e" "check_now e"] rec by simp
  have falsy: "\<not> column_truthy (response_body r)"
    using anomalous(2) by (auto simp: column_truthy_def)
  have chk: "check_phase ?w e k = (?w, None)"
    using sel falsy anomalous(1) answers by (simp add: check_phase_def)
  have "k \<in> set (map idempotency_key (idempotency_keys w))"
    using rec by force
  then have ins: "insertQuery (session_zone e) (idempotency_keys w) (id_seq w) (insert_now e) k
           (req_method req) (req_path req) (req_body req)
           = Inr (idempotency_keys w, [])"
    using fits by (simp add: insertQuery_def)
  have mw: "idempotencyMiddleware w e req =
      (w\<lparr> connects := connects w + 1, id_seq := id_seq w + 1 \<rparr>, Respond 409 conflict_body)"
    using chk ins guarded answers client by (simp add: idempotencyMiddleware_def insert_phase_def)
  show ?thesis
    using chk ins mw by (simp add: handle_request_def)
qed

theorem defensive_fallback_witness:
  "null_body_row \<in> set (idempotency_keys null_body_world) \<and>
   processing_status null_body_row = Completed \<and>
   response_body null_body_row = Some JNull \<and>
   check_now (quiet 7) < instant_of (session_zone (quiet 7)) (expires_at null_body_row) \<and>
   \<not> pool_exhausted null_body_world \<and>
   reply (handle_request null_body_world (quiet 7) (post ''K10'' ''/api/payment'' JNull) Hangs)
     = Some (409, Some conflict_body) \<and>
   handler_invoked (handle_request null_body_world (quiet 7) (post ''K10'' ''/api/payment'' JNull) Hangs) = False \<and>
   idempotency_keys (world_after (handle_request null_body_world (quiet 7) (post ''K10'' ''/api/payment'' JNull) Hangs))
     = [null_body_row]"
  using defensive_fallback [of null_body_world null_body_row "''K10''" "quiet 7"
      "post ''K10'' ''/api/payment'' JNull" Hangs]
  by (simp add: null_body_world_def null_body_row_def quiet_def post_def guarded_key_def
      pool_exhausted_def pool_max_def utc_def)

end
